theory Spec2Isabelle
  imports Main "HOL-Library.Word" "HOL-Library.Signed_Division"
begin

unbundle bit_operations_syntax

section \<open>Data model\<close>

text \<open>
  The poll record of \<^verbatim>\<open>gpoll.h\<close>.  The descriptor is a \<^verbatim>\<open>gint\<close> (a 64-bit
  integer on 64-bit Windows), the two flag fields are \<^verbatim>\<open>gushort\<close>.  The pointer-valued
  fields are addresses, \<open>0\<close> being \<^verbatim>\<open>NULL\<close>: \<open>handle\<close> is read by the kqueue backend,
  \<open>user_data\<close> by the bare-metal backend.
\<close>

record GPollFD =
  fd :: int
  events :: "16 word"
  revents :: "16 word"
  handle :: nat
  user_data :: nat

text \<open>The \<^verbatim>\<open>GIOCondition\<close> bits of \<^verbatim>\<open>giochannel.h\<close>.\<close>

definition G_IO_IN :: "16 word" where "G_IO_IN = 1"
definition G_IO_PRI :: "16 word" where "G_IO_PRI = 2"
definition G_IO_OUT :: "16 word" where "G_IO_OUT = 4"
definition G_IO_ERR :: "16 word" where "G_IO_ERR = 8"
definition G_IO_HUP :: "16 word" where "G_IO_HUP = 16"

section \<open>Bare-metal backend (\<^verbatim>\<open>G_OS_NONE\<close>)\<close>

subsection \<open>The wakeup handle of \<^verbatim>\<open>gwakeup.c\<close>\<close>

text \<open>
  Modelled from the spec: the header \<^verbatim>\<open>gwait.h\<close> is not part of the sources.  The descriptor
  of a wakeup handle is ``a reserved sentinel value recognized by backend code, not a real
  descriptor''; the sleep hook's ``no timeout'' argument is \<^verbatim>\<open>G_WAIT_INFINITE\<close>.
\<close>

definition G_WAIT_WAKEUP_HANDLE :: int where "G_WAIT_WAKEUP_HANDLE = - 2"
definition G_WAIT_INFINITE :: int where "G_WAIT_INFINITE = - 1"

definition G_MAXINT64 :: int where "G_MAXINT64 = 2 ^ 63 - 1"
definition G_TIME_SPAN_MILLISECOND :: int where "G_TIME_SPAN_MILLISECOND = 1000"

text \<open>
  A \<^verbatim>\<open>gint64\<close> is an \<open>int\<close> here; \<open>gint64\<close> is the value that 64-bit two's-complement
  arithmetic gives for an exact result, which is the result itself when it fits.
\<close>

definition gint64 :: "int \<Rightarrow> int" where
  "gint64 x = (x + 2 ^ 63) mod 2 ^ 64 - 2 ^ 63"

text \<open>
  \<^verbatim>\<open>struct _GWakeup\<close> of the bare-metal build has the two fields that \<^verbatim>\<open>g_wakeup_new\<close>
  initialises: the flag \<open>signalled\<close>, only ever assigned \<^verbatim>\<open>TRUE\<close> or \<^verbatim>\<open>FALSE\<close>, and the
  pointer \<open>token\<close> (\<open>None\<close> is \<^verbatim>\<open>NULL\<close>).
\<close>

record GWakeup =
  signalled :: bool
  token :: "nat option"

text \<open>
  The part of the machine the backend reads and writes: the heap of wakeup handles by
  address; the monotonic clock in microseconds, which runs while the thread does, with
  \<open>delays\<close> the microseconds that pass before each of the coming readings of the clock (no
  time passes before a reading when none is left); the \<^verbatim>\<open>g_atomic_pointer_set\<close> stores into
  \<open>token\<close> fields in program order, each with the address of its handle; and the tokens that
  \<^verbatim>\<open>g_wait_wake\<close> was called with.  In this sequential embedding no thread is parked when
  \<^verbatim>\<open>g_wait_wake\<close> runs, so the call is only recorded.
\<close>

record wait_world =
  wakeups :: "nat \<Rightarrow> GWakeup"
  clock :: int
  delays :: "nat list"
  stores :: "(nat \<times> nat option) list"
  woken :: "nat list"

text \<open>\<^verbatim>\<open>g_get_monotonic_time ()\<close>: the reading, a \<^verbatim>\<open>gint64\<close>, and the machine after it.\<close>

definition g_get_monotonic_time :: "wait_world \<Rightarrow> int \<times> wait_world" where
  "g_get_monotonic_time w =
     (let w' = (case delays w of
                  [] \<Rightarrow> w
                | d # ds \<Rightarrow> w\<lparr>clock := clock w + int d, delays := ds\<rparr>)
      in (gint64 (clock w'), w'))"

definition g_wait_wake :: "nat \<Rightarrow> wait_world \<Rightarrow> wait_world" where
  "g_wait_wake t w = w\<lparr>woken := woken w @ [t]\<rparr>"

definition g_wakeup_new :: "nat \<Rightarrow> wait_world \<Rightarrow> wait_world" where
  "g_wakeup_new a w = w\<lparr>wakeups := (wakeups w)(a := \<lparr>signalled = False, token = None\<rparr>)\<rparr>"

definition g_wakeup_get_pollfd :: "nat \<Rightarrow> GPollFD \<Rightarrow> GPollFD" where
  "g_wakeup_get_pollfd a poll_fd =
     poll_fd\<lparr>fd := G_WAIT_WAKEUP_HANDLE, events := G_IO_IN, user_data := a\<rparr>"

definition g_wakeup_acknowledge :: "nat \<Rightarrow> wait_world \<Rightarrow> wait_world" where
  "g_wakeup_acknowledge a w =
     w\<lparr>wakeups := (wakeups w)(a := (wakeups w a)\<lparr>signalled := False\<rparr>)\<rparr>"

definition g_wakeup_signal :: "nat \<Rightarrow> wait_world \<Rightarrow> wait_world" where
  "g_wakeup_signal a w =
     (let w1 = w\<lparr>wakeups := (wakeups w)(a := (wakeups w a)\<lparr>signalled := True\<rparr>)\<rparr>
      in case token (wakeups w1 a) of
           None \<Rightarrow> w1
         | Some t \<Rightarrow> g_wait_wake t w1)"

subsection \<open>\<^verbatim>\<open>g_poll\<close> of the bare-metal build\<close>

text \<open>
  The first and the last loop of \<^verbatim>\<open>g_poll\<close> store a value in the \<open>token\<close> field of every
  wakeup handle of the set: the call's token at entry, \<^verbatim>\<open>NULL\<close> at the label \<^verbatim>\<open>done\<close>.
\<close>

fun set_tokens :: "nat option \<Rightarrow> GPollFD list \<Rightarrow> wait_world \<Rightarrow> wait_world" where
  "set_tokens t [] w = w"
| "set_tokens t (p # ps) w =
     set_tokens t ps
       (if fd p = G_WAIT_WAKEUP_HANDLE
        then w\<lparr>wakeups := (wakeups w)(user_data p := (wakeups w (user_data p))\<lparr>token := t\<rparr>),
               stores := stores w @ [(user_data p, t)]\<rparr>
        else w)"

text \<open>
  The readiness pass inside the \<^verbatim>\<open>for (;;)\<close> loop.  \<open>ready\<close> is a \<^verbatim>\<open>gint\<close> counting entries
  of the set; it is an \<open>int\<close> here (it would need a set of \<open>2^31\<close> entries to overflow).
\<close>

fun check_fds :: "wait_world \<Rightarrow> GPollFD list \<Rightarrow> int \<Rightarrow> int \<times> GPollFD list" where
  "check_fds w [] ready = (ready, [])"
| "check_fds w (p # ps) ready =
     (let p0 = p\<lparr>revents := 0\<rparr> in
      if fd p0 = G_WAIT_WAKEUP_HANDLE \<and> signalled (wakeups w (user_data p0))
      then (case check_fds w ps (ready + 1) of (r, ps') \<Rightarrow> (r, p0\<lparr>revents := G_IO_IN\<rparr> # ps'))
      else (case check_fds w ps ready of (r, ps') \<Rightarrow> (r, p0 # ps')))"

text \<open>
  The \<^verbatim>\<open>for (;;)\<close> loop.  The platform hook \<^verbatim>\<open>g_wait_sleep\<close> is a parameter: it gets the token
  and the timeout in microseconds and returns the machine as it is when the thread runs
  again (the clock has moved, and another thread may have signalled a handle).  The
  difference \<^verbatim>\<open>deadline - now\<close> is a \<^verbatim>\<open>gint64\<close>.
\<close>

function poll_loop ::
  "(nat \<Rightarrow> int \<Rightarrow> wait_world \<Rightarrow> wait_world) \<Rightarrow> nat \<Rightarrow> int \<Rightarrow> int \<Rightarrow> bool \<Rightarrow>
   GPollFD list \<Rightarrow> wait_world \<Rightarrow> int \<times> GPollFD list \<times> wait_world" where
  "poll_loop g_wait_sleep tok timeout deadline slept ps w =
     (case check_fds w ps 0 of (ready, ps') \<Rightarrow>
        if ready \<noteq> 0 \<or> timeout = 0 \<or> slept then (ready, ps', w)
        else if timeout = - 1
        then poll_loop g_wait_sleep tok timeout deadline True ps'
               (g_wait_sleep tok G_WAIT_INFINITE w)
        else (case g_get_monotonic_time w of (now, w1) \<Rightarrow>
                if now \<ge> deadline then (ready, ps', w1)
                else poll_loop g_wait_sleep tok timeout deadline True ps'
                       (g_wait_sleep tok (gint64 (deadline - now)) w1)))"
  by pat_completeness auto
termination
  by (relation "measure (\<lambda>(s, tok, t, d, slept, ps, w). if slept then 0 else 1)") auto

declare poll_loop.simps [simp del]

text \<open>
  \<^verbatim>\<open>g_poll\<close>.  The timeout is a \<^verbatim>\<open>gint\<close>; its product with \<^verbatim>\<open>G_TIME_SPAN_MILLISECOND\<close> and the
  sum with the reading of the clock are \<^verbatim>\<open>gint64\<close> arithmetic.
\<close>

definition g_poll_none ::
  "(nat \<Rightarrow> int \<Rightarrow> wait_world \<Rightarrow> wait_world) \<Rightarrow> nat \<Rightarrow> GPollFD list \<Rightarrow> int \<Rightarrow> wait_world \<Rightarrow>
   int \<times> GPollFD list \<times> wait_world" where
  "g_poll_none g_wait_sleep tok ps timeout w =
     (case (if timeout = - 1 then (G_MAXINT64, w)
            else (case g_get_monotonic_time w of
                    (now, w0) \<Rightarrow> (gint64 (now + timeout * G_TIME_SPAN_MILLISECOND), w0))) of
        (deadline, w0) \<Rightarrow>
          (let w1 = set_tokens (Some tok) ps w0
           in case poll_loop g_wait_sleep tok timeout deadline False ps w1 of
                (ready, ps', w2) \<Rightarrow> (ready, ps', set_tokens None ps' w2)))"

text \<open>
  \<^verbatim>\<open>g_wait_is_set\<close> reads the token as the \<^verbatim>\<open>GPollOperation\<close> of the call in flight.
\<close>

record GPollOperation =
  op_fds :: "GPollFD list"
  op_nfds :: nat

fun is_set_loop :: "wait_world \<Rightarrow> GPollFD list \<Rightarrow> bool" where
  "is_set_loop w [] = False"
| "is_set_loop w (p # ps) =
     (if fd p = G_WAIT_WAKEUP_HANDLE \<and> signalled (wakeups w (user_data p)) then True
      else is_set_loop w ps)"

definition g_wait_is_set :: "wait_world \<Rightarrow> GPollOperation \<Rightarrow> bool" where
  "g_wait_is_set w op = is_set_loop w (take (op_nfds op) (op_fds op))"

subsection \<open>Vocabulary for the statements about the bare-metal backend\<close>

text \<open>An entry of a poll set that the readiness pass reports: a wakeup-handle descriptor
  whose handle is signalled.\<close>

definition wake_ready :: "wait_world \<Rightarrow> GPollFD \<Rightarrow> bool" where
  "wake_ready w p \<longleftrightarrow> fd p = G_WAIT_WAKEUP_HANDLE \<and> signalled (wakeups w (user_data p))"

text \<open>What one readiness pass writes into an entry.\<close>

definition mark_ready :: "wait_world \<Rightarrow> GPollFD \<Rightarrow> GPollFD" where
  "mark_ready w p = p\<lparr>revents := (if wake_ready w p then G_IO_IN else 0)\<rparr>"

text \<open>The addresses of the wakeup handles that a poll set refers to, as a set and in the
  order of the entries.\<close>

definition wakeup_addrs :: "GPollFD list \<Rightarrow> nat set" where
  "wakeup_addrs ps = user_data ` {p \<in> set ps. fd p = G_WAIT_WAKEUP_HANDLE}"

definition wakeup_entries :: "GPollFD list \<Rightarrow> nat list" where
  "wakeup_entries ps = map user_data (filter (\<lambda>p. fd p = G_WAIT_WAKEUP_HANDLE) ps)"

subsection \<open>Concrete machines and hooks for the bare-metal backend\<close>

text \<open>A machine in which no handle is signalled or registered and the clock stands at 0
  between the calls of the sleep hook; the same machine with 250 microseconds passing before
  each of the next two readings of the clock; and an all-zero poll record.\<close>

definition idle_world :: wait_world where
  "idle_world =
     \<lparr>wakeups = (\<lambda>a. \<lparr>signalled = False, token = None\<rparr>), clock = 0, delays = [], stores = [],
      woken = []\<rparr>"

definition busy_world :: wait_world where
  "busy_world = idle_world\<lparr>delays := [250, 250]\<rparr>"

definition blank_fd :: GPollFD where
  "blank_fd = \<lparr>fd = 0, events = 0, revents = 0, handle = 0, user_data = 0\<rparr>"

text \<open>A sleep hook that returns when its timeout has elapsed; one that returns after one
  microsecond whatever the timeout is (a spurious wake); and one during which, after one
  microsecond, another thread signals the handle at \<open>a\<close>.  The first two touch no handle.\<close>

definition punctual_sleep :: "nat \<Rightarrow> int \<Rightarrow> wait_world \<Rightarrow> wait_world" where
  "punctual_sleep tok t w = w\<lparr>clock := clock w + max 0 t\<rparr>"

definition early_sleep :: "nat \<Rightarrow> int \<Rightarrow> wait_world \<Rightarrow> wait_world" where
  "early_sleep tok t w = w\<lparr>clock := clock w + 1\<rparr>"

definition signalled_sleep :: "nat \<Rightarrow> nat \<Rightarrow> int \<Rightarrow> wait_world \<Rightarrow> wait_world" where
  "signalled_sleep a tok t w = g_wakeup_signal a (w\<lparr>clock := clock w + 1\<rparr>)"

section \<open>\<^verbatim>\<open>select\<close> backend\<close>

text \<open>
  A descriptor set (\<^verbatim>\<open>fd_set\<close>) is the set of the descriptors whose bit is on.  The system
  call is a parameter of \<^verbatim>\<open>g_poll\<close>: it gets \<open>nfds\<close>, the three sets and the timeout
  (\<open>None\<close> for a \<^verbatim>\<open>NULL\<close> pointer, else seconds and microseconds) and gives its return
  value and the three sets as it leaves them.
\<close>

type_synonym fd_set = "int set"

type_synonym select_call =
  "int \<Rightarrow> fd_set \<Rightarrow> fd_set \<Rightarrow> fd_set \<Rightarrow> (int \<times> int) option \<Rightarrow> int \<times> fd_set \<times> fd_set \<times> fd_set"

text \<open>The first loop of \<^verbatim>\<open>g_poll\<close>: the three sets and the largest descriptor asked for.\<close>

fun build_fd_sets ::
  "GPollFD list \<Rightarrow> fd_set \<times> fd_set \<times> fd_set \<times> int \<Rightarrow> fd_set \<times> fd_set \<times> fd_set \<times> int" where
  "build_fd_sets [] acc = acc"
| "build_fd_sets (f # fs) (rset, wset, xset, maxfd) =
     build_fd_sets fs
       (if fd f \<ge> 0
        then ((if events f AND G_IO_IN \<noteq> 0 then insert (fd f) rset else rset),
              (if events f AND G_IO_OUT \<noteq> 0 then insert (fd f) wset else wset),
              (if events f AND G_IO_PRI \<noteq> 0 then insert (fd f) xset else xset),
              (if fd f > maxfd \<and> events f AND (G_IO_IN OR G_IO_OUT OR G_IO_PRI) \<noteq> 0
               then fd f else maxfd))
        else (rset, wset, xset, maxfd))"

text \<open>The body of the second loop: the result of one entry, from the sets that
  \<^verbatim>\<open>select\<close> left.\<close>

definition derive_revents :: "fd_set \<Rightarrow> fd_set \<Rightarrow> fd_set \<Rightarrow> GPollFD \<Rightarrow> GPollFD" where
  "derive_revents rset wset xset f =
     (let f0 = f\<lparr>revents := 0\<rparr> in
      if fd f0 \<ge> 0
      then (let f1 = (if fd f0 \<in> rset then f0\<lparr>revents := revents f0 OR G_IO_IN\<rparr> else f0);
                f2 = (if fd f1 \<in> wset then f1\<lparr>revents := revents f1 OR G_IO_OUT\<rparr> else f1)
            in if fd f2 \<in> xset then f2\<lparr>revents := revents f2 OR G_IO_PRI\<rparr> else f2)
      else f0)"

text \<open>\<^verbatim>\<open>g_poll\<close> of the \<^verbatim>\<open>select\<close> build.  The division of the timeout is C's, truncating.\<close>

definition g_poll_select :: "select_call \<Rightarrow> GPollFD list \<Rightarrow> int \<Rightarrow> int \<times> GPollFD list" where
  "g_poll_select select fds timeout =
     (case build_fd_sets fds ({}, {}, {}, 0) of (rset, wset, xset, maxfd) \<Rightarrow>
        (let tv = (timeout sdiv 1000, (timeout smod 1000) * 1000)
         in case select (maxfd + 1) rset wset xset (if timeout = - 1 then None else Some tv) of
              (ready, rset', wset', xset') \<Rightarrow>
                if ready > 0 then (ready, map (derive_revents rset' wset' xset') fds)
                else (ready, fds)))"

text \<open>
  The system call as POSIX documents it, for descriptors of which \<open>R\<close> are readable, \<open>W\<close>
  writable and \<open>X\<close> have an exceptional condition when the call returns: each set keeps
  the descriptors below \<open>nfds\<close> that are ready for its operation, and the return value is
  ``the total number of bits set in the bit masks''.  A call with no timeout and nothing
  ready returns only when a signal interrupts it, with \<open>-1\<close> and the sets as they were.
\<close>

definition posix_select :: "fd_set \<Rightarrow> fd_set \<Rightarrow> fd_set \<Rightarrow> select_call" where
  "posix_select R W X nfds rset wset xset tv =
     (let rset' = {d \<in> rset. d < nfds \<and> d \<in> R};
          wset' = {d \<in> wset. d < nfds \<and> d \<in> W};
          xset' = {d \<in> xset. d < nfds \<and> d \<in> X}
      in if tv = None \<and> rset' = {} \<and> wset' = {} \<and> xset' = {}
         then (- 1, rset, wset, xset)
         else (int (card rset' + card wset' + card xset'), rset', wset', xset'))"

section \<open>Handle-wait backend (\<^verbatim>\<open>G_OS_WIN32\<close>)\<close>

text \<open>
  The constants of the Windows headers: the ceiling of objects per wait call, the values a
  wait returns, the message-queue pseudo descriptor of \<^verbatim>\<open>gpoll.h\<close>.  \<^verbatim>\<open>DWORD\<close> is a 32-bit
  word.
\<close>

definition MAXIMUM_WAIT_OBJECTS :: nat where "MAXIMUM_WAIT_OBJECTS = 64"
definition MAXIMUM_WAIT_OBJECTS_PER_THREAD :: nat where
  "MAXIMUM_WAIT_OBJECTS_PER_THREAD = MAXIMUM_WAIT_OBJECTS - 1"
definition WAIT_OBJECT_0 :: "32 word" where "WAIT_OBJECT_0 = 0"
definition WAIT_IO_COMPLETION :: "32 word" where "WAIT_IO_COMPLETION = 0xC0"
definition WAIT_TIMEOUT :: "32 word" where "WAIT_TIMEOUT = 258"
definition WAIT_FAILED :: "32 word" where "WAIT_FAILED = 0xFFFFFFFF"
definition INFINITE :: "32 word" where "INFINITE = 0xFFFFFFFF"
definition G_WIN32_MSG_HANDLE :: int where "G_WIN32_MSG_HANDLE = 19981206"

text \<open>
  A \<^verbatim>\<open>GPollFD *\<close> of this backend points into the caller's array or at the local
  \<^verbatim>\<open>stop_event\<close> of \<^verbatim>\<open>g_poll\<close>.
\<close>

datatype fdref = FdRef nat | StopRef

text \<open>
  \<^verbatim>\<open>GWin32PollThreadData\<close>.  The arrays \<^verbatim>\<open>handles\<close> and \<^verbatim>\<open>handle_to_fd\<close> have
  \<^verbatim>\<open>MAXIMUM_WAIT_OBJECTS\<close> slots of which the first \<^verbatim>\<open>nhandles\<close> are in use; \<open>slots\<close> is that
  used part, slot \<open>i\<close> being the pair \<^verbatim>\<open>(handles[i], handle_to_fd[i])\<close>.
\<close>

record GWin32PollThreadData =
  slots :: "(int \<times> fdref) list"
  msg_fd :: "fdref option"
  stop_fd :: "fdref option"
  timeout_ms :: "32 word"

definition nhandles :: "GWin32PollThreadData \<Rightarrow> nat" where
  "nhandles d = length (slots d)"

text \<open>A \<^verbatim>\<open>GWin32PollThreadData\<close> as \<^verbatim>\<open>= { 0, }\<close> and \<^verbatim>\<open>g_new0\<close> make it.\<close>

definition zero_data :: GWin32PollThreadData where
  "zero_data = \<lparr>slots = [], msg_fd = None, stop_fd = None, timeout_ms = 0\<rparr>"

text \<open>
  The memory the backend works on: the caller's array, the stop event, and a trace with
  the number of objects of every native wait call issued so far.
\<close>

record win_state =
  polled :: "GPollFD list"
  stop_event :: GPollFD
  waits :: "nat list"

fun deref :: "win_state \<Rightarrow> fdref \<Rightarrow> GPollFD" where
  "deref st (FdRef i) = polled st ! i"
| "deref st StopRef = stop_event st"

fun update_ref :: "fdref \<Rightarrow> (GPollFD \<Rightarrow> GPollFD) \<Rightarrow> win_state \<Rightarrow> win_state" where
  "update_ref (FdRef i) g st = st\<lparr>polled := (polled st)[i := g (polled st ! i)]\<rparr>"
| "update_ref StopRef g st = st\<lparr>stop_event := g (stop_event st)\<rparr>"

text \<open>
  The operating system, as far as the backend sees it: what each wait on a list of handles
  with a timeout returns, what the wait of the main thread on its worker threads returns
  (with or without the message queue), whether the exit code of worker \<open>i\<close> can be read,
  and the handle of the event that \<^verbatim>\<open>CreateEventW\<close> makes.
\<close>

record win_env =
  MsgWaitForMultipleObjectsEx :: "int list \<Rightarrow> 32 word \<Rightarrow> 32 word"
  WaitForMultipleObjectsEx :: "int list \<Rightarrow> 32 word \<Rightarrow> 32 word"
  WaitForThreads :: "bool \<Rightarrow> nat \<Rightarrow> 32 word \<Rightarrow> 32 word"
  GetExitCodeThread :: "nat \<Rightarrow> bool"
  CreateEventW :: int

text \<open>The wait at the head of \<^verbatim>\<open>poll_rest\<close>: its result, and the objects it waits on
  (with no handle and a finite timeout it waits on the current process).\<close>

definition native_wait :: "win_env \<Rightarrow> fdref option \<Rightarrow> int list \<Rightarrow> 32 word \<Rightarrow> 32 word" where
  "native_wait env msg hs t =
     (if msg \<noteq> None then MsgWaitForMultipleObjectsEx env hs t
      else if length hs = 0 then (if t = INFINITE then WAIT_FAILED else WAIT_TIMEOUT)
      else WaitForMultipleObjectsEx env hs t)"

definition wait_objects :: "fdref option \<Rightarrow> int list \<Rightarrow> 32 word \<Rightarrow> nat list" where
  "wait_objects msg hs t =
     (if msg \<noteq> None then [length hs]
      else if length hs = 0 then (if t = INFINITE then [] else [1])
      else [length hs])"

function poll_rest ::
  "win_env \<Rightarrow> fdref option \<Rightarrow> fdref option \<Rightarrow> (int \<times> fdref) list \<Rightarrow> 32 word \<Rightarrow> win_state \<Rightarrow>
   int \<times> win_state" where
  "poll_rest env msg stop sl t st =
     (let ready = native_wait env msg (map fst sl) t;
          st1 = st\<lparr>waits := waits st @ wait_objects msg (map fst sl) t\<rparr>
      in if ready = WAIT_FAILED then (- 1, st1)
         else if ready = WAIT_TIMEOUT \<or> ready = WAIT_IO_COMPLETION then (0, st1)
         else if msg \<noteq> None \<and> ready = WAIT_OBJECT_0 + of_nat (length sl)
         then (let st2 = (case msg of None \<Rightarrow> st1
                          | Some m \<Rightarrow> update_ref m (\<lambda>f. f\<lparr>revents := revents f OR G_IO_IN\<rparr>) st1)
               in if t \<noteq> 0 \<or> length sl = 0 then (1, st2)
                  else (case poll_rest env None stop sl 0 st2 of
                          (recursed_result, st3) \<Rightarrow>
                            (if recursed_result = - 1 then - 1 else 1 + recursed_result, st3)))
         else if ready < WAIT_OBJECT_0 + of_nat (length sl)
         then (let k = unat (ready - WAIT_OBJECT_0);
                   f = snd (sl ! k);
                   st2 = update_ref f (\<lambda>f. f\<lparr>revents := events f\<rparr>) st1;
                   retval = (if Some f \<noteq> stop then 1 else 0)
               in if t = 0 \<and> length sl > 1
                  then (case poll_rest env None stop (drop (k + 1) sl) 0 st2 of
                          (recursed_result, st3) \<Rightarrow>
                            (if recursed_result = - 1 then - 1 else retval + recursed_result, st3))
                  else (retval, st2))
         else (0, st1))"
  by pat_completeness auto
termination
  by (relation "measure (\<lambda>(env, msg, stop, sl, t, st). 2 * length sl + (if msg \<noteq> None then 1 else 0))")
     auto

declare poll_rest.simps [simp del]

definition poll_single_thread :: "win_env \<Rightarrow> GWin32PollThreadData \<Rightarrow> win_state \<Rightarrow> int \<times> win_state" where
  "poll_single_thread env d st =
     (if nhandles d > 1 \<or> (nhandles d > 0 \<and> msg_fd d \<noteq> None)
      then (case poll_rest env (msg_fd d) (stop_fd d) (slots d) 0 st of
              (retval, st1) \<Rightarrow>
                if retval = 0 \<and> (timeout_ms d = INFINITE \<or> timeout_ms d > 0)
                then poll_rest env (msg_fd d) (stop_fd d) (slots d) (timeout_ms d) st1
                else (retval, st1))
      else poll_rest env (msg_fd d) (stop_fd d) (slots d) (timeout_ms d) st)"

text \<open>
  The \<^verbatim>\<open>for\<close> loop of \<^verbatim>\<open>fill_poll_thread_data\<close> over the entries with the given indices;
  the \<^verbatim>\<open>break\<close> leaves the remaining entries as they are.
\<close>

fun fill_loop :: "nat list \<Rightarrow> GWin32PollThreadData \<Rightarrow> win_state \<Rightarrow> GWin32PollThreadData \<times> win_state" where
  "fill_loop [] d st = (d, st)"
| "fill_loop (i # is) d st =
     (if nhandles d = MAXIMUM_WAIT_OBJECTS \<or>
         (msg_fd d \<noteq> None \<and> nhandles d = MAXIMUM_WAIT_OBJECTS - 1)
      then (d, st)
      else (let f = polled st ! i;
                d1 = (if fd f = G_WIN32_MSG_HANDLE \<and> events f AND G_IO_IN \<noteq> 0
                      then d\<lparr>msg_fd := Some (FdRef i)\<rparr>
                      else if fd f > 0 then d\<lparr>slots := slots d @ [(fd f, FdRef i)]\<rparr>
                      else d)
            in fill_loop is d1 (update_ref (FdRef i) (\<lambda>f. f\<lparr>revents := 0\<rparr>) st)))"

text \<open>\<^verbatim>\<open>fill_poll_thread_data (fds + off, n, timeout_ms, stop_fd, data)\<close>.\<close>

definition fill_poll_thread_data ::
  "nat \<Rightarrow> nat \<Rightarrow> 32 word \<Rightarrow> fdref option \<Rightarrow> GWin32PollThreadData \<Rightarrow> win_state \<Rightarrow>
   GWin32PollThreadData \<times> win_state" where
  "fill_poll_thread_data off n t stop d st =
     (let d0 = d\<lparr>timeout_ms := t\<rparr>;
          d1 = (case stop of
                  None \<Rightarrow> d0
                | Some s \<Rightarrow> d0\<lparr>stop_fd := Some s, slots := slots d0 @ [(fd (deref st s), s)]\<rparr>)
      in fill_loop [off ..< off + n] d1 st)"

text \<open>
  The loop of \<^verbatim>\<open>g_poll\<close> that fills the data of worker \<open>i\<close> and starts it: it yields the
  data of the workers, the group of each (where it starts in the array, how many entries
  it has), and the message-queue entry, which the main thread keeps for itself.
\<close>

fun spawn_loop ::
  "nat \<Rightarrow> nat \<Rightarrow> 32 word \<Rightarrow> nat list \<Rightarrow> nat \<Rightarrow> fdref option \<Rightarrow> win_state \<Rightarrow>
   GWin32PollThreadData list \<times> (nat \<times> nat) list \<times> fdref option \<times> win_state" where
  "spawn_loop nthreads threads_remain t [] fds_idx msg st = ([], [], msg, st)"
| "spawn_loop nthreads threads_remain t (i # is) fds_idx msg st =
     (let thread_fds = (if i = nthreads - 1 \<and> threads_remain > 0 then threads_remain
                        else MAXIMUM_WAIT_OBJECTS_PER_THREAD)
      in case fill_poll_thread_data fds_idx thread_fds t (Some StopRef) zero_data st of
           (d, st1) \<Rightarrow>
             (case spawn_loop nthreads threads_remain t is (fds_idx + thread_fds)
                     (if msg_fd d \<noteq> None then msg_fd d else msg) st1 of
                (ds, gs, msg', st2) \<Rightarrow>
                  ((if msg_fd d \<noteq> None then d\<lparr>msg_fd := None\<rparr> else d) # ds,
                   (fds_idx, thread_fds) # gs, msg', st2)))"

text \<open>
  The workers run \<^verbatim>\<open>poll_single_thread\<close> concurrently.  Each one writes the entries of its
  own group and the stop event only, so running them one after the other gives the memory
  that the main thread finds after joining them.  The exit code of a worker is its result
  as a \<^verbatim>\<open>DWORD\<close>.
\<close>

fun run_workers :: "win_env \<Rightarrow> GWin32PollThreadData list \<Rightarrow> win_state \<Rightarrow> 32 word list \<times> win_state" where
  "run_workers env [] st = ([], st)"
| "run_workers env (d # ds) st =
     (case poll_single_thread env d st of
        (retval, st1) \<Rightarrow>
          (case run_workers env ds st1 of (codes, st2) \<Rightarrow> (word_of_int retval # codes, st2)))"

text \<open>The loop that adds up the exit codes; \<open>retval\<close> is an \<^verbatim>\<open>int\<close> of 32 bits.\<close>

fun collect_exit_codes :: "win_env \<Rightarrow> nat list \<Rightarrow> 32 word list \<Rightarrow> 32 word \<Rightarrow> 32 word" where
  "collect_exit_codes env [] codes retval = retval"
| "collect_exit_codes env (i # is) codes retval =
     collect_exit_codes env is codes
       (if GetExitCodeThread env i
        then (if retval = - 1 then - 1
              else if codes ! i = - 1 then - 1 else retval + codes ! i)
        else retval)"

record win_result =
  ret :: int
  out_fds :: "GPollFD list"
  native_waits :: "nat list"
  workers :: "GWin32PollThreadData list"
  groups :: "(nat \<times> nat) list"
  exit_codes :: "32 word list"

definition g_poll_win32 :: "win_env \<Rightarrow> GPollFD list \<Rightarrow> int \<Rightarrow> win_result" where
  "g_poll_win32 env fds timeout =
     (let nfds = length fds;
          t = (if timeout = - 1 then INFINITE else word_of_int timeout);
          st0 = \<lparr>polled = fds, stop_event = blank_fd, waits = []\<rparr>
      in if nfds \<le> MAXIMUM_WAIT_OBJECTS
         then (case fill_poll_thread_data 0 nfds t None zero_data st0 of
                 (d, st1) \<Rightarrow>
                   (case poll_single_thread env d st1 of
                      (retval, st2) \<Rightarrow>
                        \<lparr>ret = retval,
                         out_fds = (if retval = - 1 then map (\<lambda>f. f\<lparr>revents := 0\<rparr>) (polled st2)
                                    else polled st2),
                         native_waits = waits st2, workers = [], groups = [],
                         exit_codes = []\<rparr>))
         else (let threads_remain = nfds mod MAXIMUM_WAIT_OBJECTS_PER_THREAD;
                   nthreads0 = nfds div MAXIMUM_WAIT_OBJECTS_PER_THREAD +
                               (if threads_remain > 0 then 1 else 0);
                   nthreads = (if nthreads0 > MAXIMUM_WAIT_OBJECTS_PER_THREAD
                               then MAXIMUM_WAIT_OBJECTS_PER_THREAD else nthreads0);
                   st1 = st0\<lparr>stop_event := blank_fd\<lparr>fd := CreateEventW env, events := G_IO_IN\<rparr>\<rparr>
               in case spawn_loop nthreads threads_remain t [0 ..< nthreads] 0 None st1 of
                    (ds, gs, msg, st2) \<Rightarrow>
                      (case run_workers env ds st2 of
                         (codes, st3) \<Rightarrow>
                           (let ready = WaitForThreads env (msg \<noteq> None) nthreads t;
                                st4 = st3\<lparr>waits := waits st3 @ [nthreads, nthreads]\<rparr>;
                                got_msg = (msg \<noteq> None \<and> ready = WAIT_OBJECT_0 + of_nat nthreads);
                                st5 = (case msg of
                                         Some m \<Rightarrow>
                                           if got_msg
                                           then update_ref m (\<lambda>f. f\<lparr>revents := revents f OR G_IO_IN\<rparr>) st4
                                           else st4
                                       | None \<Rightarrow> st4);
                                retval = collect_exit_codes env [0 ..< nthreads] codes
                                           (if got_msg then 1 else 0)
                            in \<lparr>ret = sint retval,
                                out_fds = (if retval = - 1
                                           then map (\<lambda>f. f\<lparr>revents := 0\<rparr>) (polled st5)
                                           else polled st5),
                                native_waits = waits st5, workers = ds, groups = gs,
                                exit_codes = codes\<rparr>))))"

subsection \<open>Vocabulary for the statements about the handle-wait backend\<close>

text \<open>Two arrays of poll records that differ in the result fields at most.\<close>

definition same_requests :: "GPollFD list \<Rightarrow> GPollFD list \<Rightarrow> bool" where
  "same_requests xs ys \<longleftrightarrow> map (\<lambda>f. f\<lparr>revents := 0\<rparr>) xs = map (\<lambda>f. f\<lparr>revents := 0\<rparr>) ys"

text \<open>Consecutive groups of the given sizes, the first one starting at \<open>off\<close>: where each
  starts and how many entries it has.\<close>

fun groups_from :: "nat \<Rightarrow> nat list \<Rightarrow> (nat \<times> nat) list" where
  "groups_from off [] = []"
| "groups_from off (n # ns) = (off, n) # groups_from (off + n) ns"

text \<open>An operating system in which every wait times out.\<close>

definition quiet_env :: win_env where
  "quiet_env =
     \<lparr>MsgWaitForMultipleObjectsEx = (\<lambda>hs t. WAIT_TIMEOUT),
      WaitForMultipleObjectsEx = (\<lambda>hs t. WAIT_TIMEOUT),
      WaitForThreads = (\<lambda>m n t. WAIT_TIMEOUT),
      GetExitCodeThread = (\<lambda>i. True),
      CreateEventW = 1000\<rparr>"




section \<open>Kernel-event-queue backend (\<^verbatim>\<open>HAVE_KQUEUE\<close>)\<close>

subsection \<open>Events and system calls\<close>

text \<open>
  The filters and flag bits of \<^verbatim>\<open>sys/event.h\<close> that the backend uses, and \<^verbatim>\<open>struct kevent\<close>:
  the identifier (a descriptor or, for a user event, the address of the wakeup handle), the
  filter, the flags, the filter flags and the user data, which for a descriptor is the
  address of its poll record, here its index in the array (\<open>None\<close> is \<^verbatim>\<open>NULL\<close>).
\<close>

datatype kfilter = EVFILT_READ | EVFILT_WRITE | EVFILT_EXCEPT | EVFILT_USER

definition EV_ADD :: "16 word" where "EV_ADD = 0x0001"
definition EV_DELETE :: "16 word" where "EV_DELETE = 0x0002"
definition EV_OOBAND :: "16 word" where "EV_OOBAND = 0x2000"
definition EV_ERROR :: "16 word" where "EV_ERROR = 0x4000"
definition EV_EOF :: "16 word" where "EV_EOF = 0x8000"
definition NOTE_OOB :: "32 word" where "NOTE_OOB = 0x00000002"
definition NOTE_TRIGGER :: "32 word" where "NOTE_TRIGGER = 0x01000000"
definition NOTE_FFCOPY :: "32 word" where "NOTE_FFCOPY = 0xc0000000"

record kevent =
  ev_ident :: nat
  ev_filter :: kfilter
  ev_flags :: "16 word"
  ev_fflags :: "32 word"
  ev_udata :: "nat option"

definition EV_SET :: "nat \<Rightarrow> kfilter \<Rightarrow> 16 word \<Rightarrow> 32 word \<Rightarrow> nat option \<Rightarrow> kevent" where
  "EV_SET i f fl ffl u = \<lparr>ev_ident = i, ev_filter = f, ev_flags = fl, ev_fflags = ffl, ev_udata = u\<rparr>"

text \<open>
  The three system calls are parameters of the backend, over any kernel state \<open>'k\<close>:
  \<^verbatim>\<open>kqueue ()\<close> gives a descriptor or \<open>-1\<close>; \<^verbatim>\<open>kevent (kq, changes, nevents, timeout)\<close> gives
  \<open>None\<close> when it returns \<open>-1\<close>, else the events it delivers, of which it stores the first
  \<open>nevents\<close> and returns their number; \<^verbatim>\<open>close\<close>.
\<close>

record 'k kq_sys =
  sys_kqueue :: "'k \<Rightarrow> int \<times> 'k"
  sys_kevent :: "int \<Rightarrow> kevent list \<Rightarrow> nat \<Rightarrow> (int \<times> int) option \<Rightarrow> 'k \<Rightarrow> kevent list option \<times> 'k"
  sys_close :: "int \<Rightarrow> 'k \<Rightarrow> 'k"

subsection \<open>The wakeup handle of the kqueue build\<close>

text \<open>
  Modelled from the spec: \<^verbatim>\<open>gwakeup-private.h\<close> is not part of the sources; the descriptor of
  a wakeup handle is ``a reserved sentinel value recognized by backend code, not a real
  descriptor''.
\<close>

definition G_KQUEUE_WAKEUP_HANDLE :: int where "G_KQUEUE_WAKEUP_HANDLE = - 2"

text \<open>\<^verbatim>\<open>struct _GWakeup\<close>: the queue the handle is realized into, and the \<^verbatim>\<open>guint\<close> counter
  \<open>pending\<close>.  The mutex is left out: the embedding is sequential.\<close>

record GWakeup_kq =
  kq :: int
  pending :: "32 word"

record 'k kq_world =
  kq_wakeups :: "nat \<Rightarrow> GWakeup_kq"
  kernel :: 'k

definition g_wakeup_new_kq :: "nat \<Rightarrow> 'k kq_world \<Rightarrow> 'k kq_world" where
  "g_wakeup_new_kq a w = w\<lparr>kq_wakeups := (kq_wakeups w)(a := \<lparr>kq = - 1, pending = 0\<rparr>)\<rparr>"

definition g_wakeup_get_pollfd_kq :: "nat \<Rightarrow> GPollFD \<Rightarrow> GPollFD" where
  "g_wakeup_get_pollfd_kq a poll_fd =
     poll_fd\<lparr>fd := G_KQUEUE_WAKEUP_HANDLE, events := G_IO_IN, handle := a\<rparr>"

definition g_wakeup_signal_unlocked :: "'k kq_sys \<Rightarrow> nat \<Rightarrow> 'k kq_world \<Rightarrow> 'k kq_world" where
  "g_wakeup_signal_unlocked sys a w =
     (let w1 = (if kq (kq_wakeups w a) \<noteq> - 1
                then w\<lparr>kernel := snd (sys_kevent sys (kq (kq_wakeups w a))
                                          [EV_SET a EVFILT_USER 0 NOTE_TRIGGER None] 0 None (kernel w))\<rparr>
                else w)
      in w1\<lparr>kq_wakeups := (kq_wakeups w1)
               (a := (kq_wakeups w1 a)\<lparr>pending := pending (kq_wakeups w1 a) + 1\<rparr>)\<rparr>)"

definition g_wakeup_signal_kq :: "'k kq_sys \<Rightarrow> nat \<Rightarrow> 'k kq_world \<Rightarrow> 'k kq_world" where
  "g_wakeup_signal_kq sys a w = g_wakeup_signal_unlocked sys a w"

definition g_wakeup_kqueue_realize :: "'k kq_sys \<Rightarrow> nat \<Rightarrow> int \<Rightarrow> 'k kq_world \<Rightarrow> 'k kq_world" where
  "g_wakeup_kqueue_realize sys a q w =
     (let w1 = w\<lparr>kq_wakeups := (kq_wakeups w)(a := (kq_wakeups w a)\<lparr>kq := q\<rparr>)\<rparr>
      in if pending (kq_wakeups w1 a) \<noteq> 0 then g_wakeup_signal_unlocked sys a w1 else w1)"

definition g_wakeup_kqueue_unrealize :: "nat \<Rightarrow> 'k kq_world \<Rightarrow> 'k kq_world" where
  "g_wakeup_kqueue_unrealize a w =
     w\<lparr>kq_wakeups := (kq_wakeups w)(a := (kq_wakeups w a)\<lparr>kq := - 1\<rparr>)\<rparr>"

definition g_wakeup_acknowledge_kq :: "'k kq_sys \<Rightarrow> nat \<Rightarrow> 'k kq_world \<Rightarrow> 'k kq_world" where
  "g_wakeup_acknowledge_kq sys a w =
     (let w1 = w\<lparr>kernel := snd (sys_kevent sys (kq (kq_wakeups w a))
                                   [EV_SET a EVFILT_USER EV_DELETE 0 None,
                                    EV_SET a EVFILT_USER EV_ADD NOTE_FFCOPY None] 0 None (kernel w))\<rparr>
      in w1\<lparr>kq_wakeups := (kq_wakeups w1)(a := (kq_wakeups w1 a)\<lparr>pending := 0\<rparr>)\<rparr>)"

subsection \<open>\<^verbatim>\<open>g_poll\<close> of the kqueue build\<close>

text \<open>The registration loop: the change list, entry \<open>i\<close> of the array first.\<close>

fun kq_changes :: "nat \<Rightarrow> GPollFD list \<Rightarrow> kevent list" where
  "kq_changes i [] = []"
| "kq_changes i (p # ps) =
     (if fd p = G_KQUEUE_WAKEUP_HANDLE
      then [EV_SET (handle p) EVFILT_USER EV_ADD NOTE_FFCOPY None]
      else if fd p \<ge> 0
      then (if events p AND G_IO_IN \<noteq> 0 then [EV_SET (nat (fd p)) EVFILT_READ EV_ADD 0 (Some i)] else []) @
           (if events p AND G_IO_OUT \<noteq> 0 then [EV_SET (nat (fd p)) EVFILT_WRITE EV_ADD 0 (Some i)] else []) @
           (if events p AND G_IO_PRI \<noteq> 0
            then [EV_SET (nat (fd p)) EVFILT_EXCEPT EV_ADD NOTE_OOB (Some i)] else [])
      else []) @ kq_changes (i + 1) ps"

definition num_wakeup_fds :: "GPollFD list \<Rightarrow> nat" where
  "num_wakeup_fds fds = length (filter (\<lambda>p. fd p = G_KQUEUE_WAKEUP_HANDLE) fds)"

fun realize_all :: "'k kq_sys \<Rightarrow> int \<Rightarrow> GPollFD list \<Rightarrow> 'k kq_world \<Rightarrow> 'k kq_world" where
  "realize_all sys q [] w = w"
| "realize_all sys q (p # ps) w =
     realize_all sys q ps
       (if fd p = G_KQUEUE_WAKEUP_HANDLE then g_wakeup_kqueue_realize sys (handle p) q w else w)"

fun unrealize_all :: "GPollFD list \<Rightarrow> 'k kq_world \<Rightarrow> 'k kq_world" where
  "unrealize_all [] w = w"
| "unrealize_all (p # ps) w =
     unrealize_all ps
       (if fd p = G_KQUEUE_WAKEUP_HANDLE then g_wakeup_kqueue_unrealize (handle p) w else w)"

text \<open>The \<^verbatim>\<open>switch\<close> on the filter of one delivered event (with \<^verbatim>\<open>EVFILT_EXCEPT\<close> and
  \<^verbatim>\<open>EV_OOBAND\<close> defined).\<close>

definition on_read :: "kevent \<Rightarrow> GPollFD \<Rightarrow> GPollFD" where
  "on_read ev pfd =
     (let p1 = (if events pfd AND G_IO_IN \<noteq> 0 then pfd\<lparr>revents := revents pfd OR G_IO_IN\<rparr> else pfd);
          p2 = (if events p1 AND G_IO_PRI \<noteq> 0 \<and> ev_flags ev AND EV_OOBAND \<noteq> 0
                then p1\<lparr>revents := revents p1 OR G_IO_PRI\<rparr> else p1);
          p3 = (if ev_flags ev AND EV_EOF \<noteq> 0
                then (let h = p2\<lparr>revents := revents p2 OR G_IO_HUP\<rparr>
                      in if ev_fflags ev \<noteq> 0 then h\<lparr>revents := revents h OR G_IO_ERR\<rparr> else h)
                else p2)
      in if ev_flags ev AND EV_ERROR \<noteq> 0 then p3\<lparr>revents := revents p3 OR G_IO_ERR\<rparr> else p3)"

definition on_write :: "kevent \<Rightarrow> GPollFD \<Rightarrow> GPollFD" where
  "on_write ev pfd =
     (let p1 = (if events pfd AND G_IO_OUT \<noteq> 0 then pfd\<lparr>revents := revents pfd OR G_IO_OUT\<rparr> else pfd)
      in if ev_flags ev AND (EV_EOF OR EV_ERROR) \<noteq> 0
         then p1\<lparr>revents := revents p1 OR G_IO_ERR\<rparr> else p1)"

definition on_except :: "kevent \<Rightarrow> GPollFD \<Rightarrow> GPollFD" where
  "on_except ev pfd =
     (let p1 = (if events pfd AND G_IO_PRI \<noteq> 0 then pfd\<lparr>revents := revents pfd OR G_IO_PRI\<rparr> else pfd);
          p2 = (if ev_flags ev AND EV_EOF \<noteq> 0 then p1\<lparr>revents := revents p1 OR G_IO_HUP\<rparr> else p1)
      in if ev_flags ev AND EV_ERROR \<noteq> 0 then p2\<lparr>revents := revents p2 OR G_IO_ERR\<rparr> else p2)"

definition on_user :: "kevent \<Rightarrow> GPollFD \<Rightarrow> GPollFD" where
  "on_user ev pfd =
     (if fd pfd = G_KQUEUE_WAKEUP_HANDLE \<and> handle pfd = ev_ident ev
      then (if events pfd AND G_IO_IN \<noteq> 0 then pfd\<lparr>revents := revents pfd OR G_IO_IN\<rparr> else pfd)
      else pfd)"

definition at_udata :: "kevent \<Rightarrow> (GPollFD \<Rightarrow> GPollFD) \<Rightarrow> GPollFD list \<Rightarrow> GPollFD list" where
  "at_udata ev g fds =
     (case ev_udata ev of None \<Rightarrow> fds
      | Some i \<Rightarrow> if i < length fds then fds[i := g (fds ! i)] else fds)"

definition process_event :: "GPollFD list \<Rightarrow> kevent \<Rightarrow> GPollFD list" where
  "process_event fds ev =
     (case ev_filter ev of
        EVFILT_READ \<Rightarrow> at_udata ev (on_read ev) fds
      | EVFILT_WRITE \<Rightarrow> at_udata ev (on_write ev) fds
      | EVFILT_EXCEPT \<Rightarrow> at_udata ev (on_except ev) fds
      | EVFILT_USER \<Rightarrow> map (on_user ev) fds)"

text \<open>From the loop that clears the results to the recount of the return value.\<close>

definition kq_results :: "GPollFD list \<Rightarrow> nat \<Rightarrow> kevent list option \<Rightarrow> int \<times> GPollFD list" where
  "kq_results fds max_events res =
     (let fds0 = map (\<lambda>f. f\<lparr>revents := 0\<rparr>) fds
      in case res of
           None \<Rightarrow> (- 1, fds0)
         | Some evs \<Rightarrow>
             (let got = take max_events evs;
                  fds1 = foldl process_event fds0 got
              in if int (length got) > 0
                 then (int (length (filter (\<lambda>f. revents f \<noteq> 0) fds1)), fds1)
                 else (int (length got), fds1)))"

text \<open>The label \<^verbatim>\<open>beach\<close>.\<close>

definition kq_beach :: "'k kq_sys \<Rightarrow> int \<Rightarrow> GPollFD list \<Rightarrow> 'k kq_world \<Rightarrow> 'k kq_world" where
  "kq_beach sys q fds w =
     (let w1 = (if num_wakeup_fds fds > 0 then unrealize_all fds w else w)
      in w1\<lparr>kernel := sys_close sys q (kernel w1)\<rparr>)"

definition g_poll_kqueue ::
  "'k kq_sys \<Rightarrow> GPollFD list \<Rightarrow> int \<Rightarrow> 'k kq_world \<Rightarrow> int \<times> GPollFD list \<times> 'k kq_world" where
  "g_poll_kqueue sys fds timeout w =
     (case sys_kqueue sys (kernel w) of
        (q, k1) \<Rightarrow>
          if q = - 1 then (- 1, fds, w\<lparr>kernel := k1\<rparr>)
          else
            (let max_events = length fds * 3;
                 changes = kq_changes 0 fds;
                 ts = (if timeout \<ge> 0 then Some (timeout div 1000, (timeout mod 1000) * 1000000)
                       else None);
                 w1 = w\<lparr>kernel := k1\<rparr>
             in if num_wakeup_fds fds = 0
                then (case sys_kevent sys q changes max_events ts (kernel w1) of
                        (res, k2) \<Rightarrow>
                          (case kq_results fds max_events res of
                             (r, fds') \<Rightarrow> (r, fds', kq_beach sys q fds (w1\<lparr>kernel := k2\<rparr>))))
                else (case sys_kevent sys q changes 0 None (kernel w1) of
                        (None, k2) \<Rightarrow> (- 1, fds, kq_beach sys q fds (w1\<lparr>kernel := k2\<rparr>))
                      | (Some _, k2) \<Rightarrow>
                          (let w3 = realize_all sys q fds (w1\<lparr>kernel := k2\<rparr>)
                           in case sys_kevent sys q [] max_events ts (kernel w3) of
                                (res, k4) \<Rightarrow>
                                  (case kq_results fds max_events res of
                                     (r, fds') \<Rightarrow>
                                       (r, fds', kq_beach sys q fds (w3\<lparr>kernel := k4\<rparr>)))))))"

subsection \<open>A kernel for the system calls\<close>

text \<open>
  The event queues as the manual page of \<^verbatim>\<open>kqueue\<close> describes them, as far as the backend
  uses them.  A queue holds one registration (knote) for each pair of identifier and
  filter.  \<^verbatim>\<open>EV_ADD\<close> registers, \<^verbatim>\<open>EV_DELETE\<close> removes, and a change with neither that carries
  \<^verbatim>\<open>NOTE_TRIGGER\<close> triggers a registered user event (a change that names no registration
  is dropped).  A user event is delivered once triggered; an event of a descriptor is
  delivered, with the flags given, when \<open>fd_status\<close> says that it is active.  A call that
  asks for no event returns 0; one with no timeout and nothing to deliver returns only
  when interrupted, with \<open>-1\<close>.
\<close>

record knote =
  kn_ident :: nat
  kn_filter :: kfilter
  kn_udata :: "nat option"
  kn_triggered :: bool

record kernel_model =
  queues :: "int \<Rightarrow> knote list option"
  next_kq :: int
  fd_status :: "nat \<Rightarrow> kfilter \<Rightarrow> (16 word \<times> 32 word) option"

definition same_note :: "kevent \<Rightarrow> knote \<Rightarrow> bool" where
  "same_note c n \<longleftrightarrow> kn_ident n = ev_ident c \<and> kn_filter n = ev_filter c"

definition apply_change :: "knote list \<Rightarrow> kevent \<Rightarrow> knote list" where
  "apply_change ns c =
     (if ev_flags c AND EV_DELETE \<noteq> 0 then filter (\<lambda>n. \<not> same_note c n) ns
      else if ev_flags c AND EV_ADD \<noteq> 0
      then (if \<exists>n \<in> set ns. same_note c n
            then map (\<lambda>n. if same_note c n then n\<lparr>kn_udata := ev_udata c\<rparr> else n) ns
            else ns @ [\<lparr>kn_ident = ev_ident c, kn_filter = ev_filter c, kn_udata = ev_udata c,
                        kn_triggered = False\<rparr>])
      else if ev_filter c = EVFILT_USER \<and> ev_fflags c AND NOTE_TRIGGER \<noteq> 0
      then map (\<lambda>n. if same_note c n then n\<lparr>kn_triggered := True\<rparr> else n) ns
      else ns)"

definition deliver :: "kernel_model \<Rightarrow> knote \<Rightarrow> kevent list" where
  "deliver k n =
     (if kn_filter n = EVFILT_USER
      then (if kn_triggered n then [EV_SET (kn_ident n) EVFILT_USER 0 0 (kn_udata n)] else [])
      else (case fd_status k (kn_ident n) (kn_filter n) of
              None \<Rightarrow> []
            | Some (fl, ffl) \<Rightarrow> [EV_SET (kn_ident n) (kn_filter n) fl ffl (kn_udata n)]))"

definition model_kqueue :: "kernel_model \<Rightarrow> int \<times> kernel_model" where
  "model_kqueue k =
     (if next_kq k < 0 then (- 1, k)
      else (next_kq k, k\<lparr>queues := (queues k)(next_kq k := Some []), next_kq := next_kq k + 1\<rparr>))"

definition model_kevent ::
  "int \<Rightarrow> kevent list \<Rightarrow> nat \<Rightarrow> (int \<times> int) option \<Rightarrow> kernel_model \<Rightarrow> kevent list option \<times> kernel_model" where
  "model_kevent q changes nevents ts k =
     (case queues k q of
        None \<Rightarrow> (None, k)
      | Some ns \<Rightarrow>
          (let ns' = foldl apply_change ns changes;
               k' = k\<lparr>queues := (queues k)(q := Some ns')\<rparr>;
               evs = concat (map (deliver k) ns')
           in if nevents = 0 then (Some [], k')
              else if evs = [] \<and> ts = None then (None, k')
              else (Some (take nevents evs), k')))"

definition model_close :: "int \<Rightarrow> kernel_model \<Rightarrow> kernel_model" where
  "model_close q k = k\<lparr>queues := (queues k)(q := None)\<rparr>"

definition model_sys :: "kernel_model kq_sys" where
  "model_sys = \<lparr>sys_kqueue = model_kqueue, sys_kevent = model_kevent, sys_close = model_close\<rparr>"

text \<open>A machine with no queue open, no descriptor active and every handle as
  \<^verbatim>\<open>g_wakeup_new\<close> makes it.\<close>

definition fresh_kq_world :: "kernel_model kq_world" where
  "fresh_kq_world =
     \<lparr>kq_wakeups = (\<lambda>a. \<lparr>kq = - 1, pending = 0\<rparr>),
      kernel = \<lparr>queues = (\<lambda>q. None), next_kq = 3, fd_status = (\<lambda>d f. None)\<rparr>\<rparr>"

section \<open>Properties of the bare-metal backend\<close>

lemma ex_set_take:
  "(\<exists>p \<in> set (take n xs). P p) \<longleftrightarrow> (\<exists>i < n. i < length xs \<and> P (xs ! i))"
proof
  assume "\<exists>p \<in> set (take n xs). P p"
  then obtain i where "i < length (take n xs)" "P (take n xs ! i)"
    by (auto simp: in_set_conv_nth)
  then show "\<exists>i < n. i < length xs \<and> P (xs ! i)"
    by (intro exI[of _ i]) simp
next
  assume "\<exists>i < n. i < length xs \<and> P (xs ! i)"
  then obtain i where i: "i < n" "i < length xs" "P (xs ! i)" by blast
  then have "take n xs ! i \<in> set (take n xs)" by (intro nth_mem) simp
  with i show "\<exists>p \<in> set (take n xs). P p" by (intro bexI[of _ "take n xs ! i"]) simp_all
qed

lemma is_set_loop_iff:
  "is_set_loop w ps \<longleftrightarrow>
     (\<exists>p \<in> set ps. fd p = G_WAIT_WAKEUP_HANDLE \<and> signalled (wakeups w (user_data p)))"
  by (induction ps) auto

text \<open>
  C10: \<^verbatim>\<open>g_wait_is_set (token)\<close> is \<^verbatim>\<open>TRUE\<close> exactly when some entry of the token's poll set
  is a wakeup-handle descriptor whose handle has its \<open>signalled\<close> flag set, and it is
  \<^verbatim>\<open>FALSE\<close> for every poll set with no wakeup-handle descriptor.
\<close>

theorem g_wait_is_set_iff:
  "(g_wait_is_set w op \<longleftrightarrow>
      (\<exists>i < op_nfds op. i < length (op_fds op) \<and> fd (op_fds op ! i) = G_WAIT_WAKEUP_HANDLE \<and>
         signalled (wakeups w (user_data (op_fds op ! i))))) \<and>
   ((\<forall>i < op_nfds op. i < length (op_fds op) \<longrightarrow> fd (op_fds op ! i) \<noteq> G_WAIT_WAKEUP_HANDLE)
      \<longrightarrow> \<not> g_wait_is_set w op)"
proof -
  have "g_wait_is_set w op \<longleftrightarrow>
      (\<exists>i < op_nfds op. i < length (op_fds op) \<and> fd (op_fds op ! i) = G_WAIT_WAKEUP_HANDLE \<and>
         signalled (wakeups w (user_data (op_fds op ! i))))"
    unfolding g_wait_is_set_def is_set_loop_iff by (rule ex_set_take)
  then show ?thesis by blast
qed

lemma wake_ready_revents [simp]: "wake_ready u (p\<lparr>revents := x\<rparr>) = wake_ready u p"
  by (simp add: wake_ready_def)

lemma mark_ready_simps [simp]:
  "fd (mark_ready w p) = fd p"
  "user_data (mark_ready w p) = user_data p"
  "events (mark_ready w p) = events p"
  "wake_ready u (mark_ready w p) = wake_ready u p"
  "mark_ready u (mark_ready w p) = mark_ready u p"
  "revents (mark_ready w p) = (if wake_ready w p then G_IO_IN else 0)"
  by (simp_all add: mark_ready_def)

lemma check_fds_eq:
  "check_fds w ps r = (r + int (length (filter (wake_ready w) ps)), map (mark_ready w) ps)"
  by (induction ps arbitrary: r) (simp_all add: wake_ready_def mark_ready_def Let_def)

lemma wake_ready_o_mark [simp]: "wake_ready u \<circ> mark_ready w = wake_ready u"
  by (simp add: fun_eq_iff)

lemma mark_ready_o_mark [simp]: "mark_ready u \<circ> mark_ready w = mark_ready u"
  by (simp add: fun_eq_iff)

lemma filter_wake_ready_mark [simp]:
  "length (filter (wake_ready u) (map (mark_ready w) ps)) = length (filter (wake_ready u) ps)"
  by (induction ps) simp_all

lemma map_mark_ready_twice [simp]:
  "map (mark_ready u) (map (mark_ready w) ps) = map (mark_ready u) ps"
  by simp

text \<open>A reading of the clock moves the clock and nothing else.\<close>

lemma read_clock_frame [simp]:
  "wakeups (snd (g_get_monotonic_time w)) = wakeups w"
  "stores (snd (g_get_monotonic_time w)) = stores w"
  "woken (snd (g_get_monotonic_time w)) = woken w"
  by (simp_all add: g_get_monotonic_time_def Let_def split: list.splits)

lemma wake_ready_read_clock [simp]: "wake_ready (snd (g_get_monotonic_time w)) = wake_ready w"
  by (simp add: wake_ready_def fun_eq_iff)

lemma mark_ready_read_clock [simp]: "mark_ready (snd (g_get_monotonic_time w)) = mark_ready w"
  by (simp add: mark_ready_def fun_eq_iff)

lemma poll_loop_slept:
  "poll_loop S tok T D True ps w =
     (int (length (filter (wake_ready w) ps)), map (mark_ready w) ps, w)"
  by (subst poll_loop.simps) (simp add: check_fds_eq)

lemma poll_loop_first:
  "poll_loop S tok T D False ps w =
     (if filter (wake_ready w) ps \<noteq> [] \<or> T = 0
      then (int (length (filter (wake_ready w) ps)), map (mark_ready w) ps, w)
      else if T = - 1
      then (let v = S tok G_WAIT_INFINITE w
            in (int (length (filter (wake_ready v) ps)), map (mark_ready v) ps, v))
      else if D \<le> fst (g_get_monotonic_time w)
      then (0, map (mark_ready w) ps, snd (g_get_monotonic_time w))
      else (let v = S tok (gint64 (D - fst (g_get_monotonic_time w))) (snd (g_get_monotonic_time w))
            in (int (length (filter (wake_ready v) ps)), map (mark_ready v) ps, v)))"
  by (subst poll_loop.simps)
     (simp add: check_fds_eq poll_loop_slept Let_def case_prod_beta)


lemma set_tokens_signalled [simp]:
  "signalled (wakeups (set_tokens t ps w) a) = signalled (wakeups w a)"
  by (induction ps arbitrary: w) auto

lemma set_tokens_clock [simp]: "clock (set_tokens t ps w) = clock w"
  by (induction ps arbitrary: w) auto

lemma set_tokens_delays [simp]: "delays (set_tokens t ps w) = delays w"
  by (induction ps arbitrary: w) auto

lemma set_tokens_woken [simp]: "woken (set_tokens t ps w) = woken w"
  by (induction ps arbitrary: w) auto

lemma wakeup_entries_Nil [simp]: "wakeup_entries [] = []"
  by (simp add: wakeup_entries_def)

lemma wakeup_entries_Cons [simp]:
  "wakeup_entries (p # ps) =
     (if fd p = G_WAIT_WAKEUP_HANDLE then user_data p # wakeup_entries ps else wakeup_entries ps)"
  by (simp add: wakeup_entries_def)

lemma set_tokens_stores:
  "stores (set_tokens t ps w) = stores w @ map (\<lambda>a. (a, t)) (wakeup_entries ps)"
  by (induction ps arbitrary: w) auto

lemma read_clock_set_tokens [simp]:
  "fst (g_get_monotonic_time (set_tokens t ps w)) = fst (g_get_monotonic_time w)"
  by (simp add: g_get_monotonic_time_def Let_def split: list.splits)

lemma wake_ready_set_tokens [simp]: "wake_ready (set_tokens t ps w) = wake_ready w"
  by (simp add: wake_ready_def fun_eq_iff)

lemma mark_ready_set_tokens [simp]: "mark_ready (set_tokens t ps w) = mark_ready w"
  by (simp add: mark_ready_def fun_eq_iff)

lemma wakeup_addrs_Nil [simp]: "wakeup_addrs [] = {}"
  by (simp add: wakeup_addrs_def)

lemma wakeup_addrs_Cons [simp]:
  "wakeup_addrs (p # ps) =
     (if fd p = G_WAIT_WAKEUP_HANDLE then insert (user_data p) (wakeup_addrs ps)
      else wakeup_addrs ps)"
  by (auto simp: wakeup_addrs_def)

lemma wakeup_addrs_mark [simp]: "wakeup_addrs (map (mark_ready u) ps) = wakeup_addrs ps"
  by (induction ps) simp_all

lemma wakeup_entries_mark [simp]: "wakeup_entries (map (mark_ready u) ps) = wakeup_entries ps"
  by (induction ps) simp_all

lemma set_tokens_token:
  "token (wakeups (set_tokens t ps w) a) =
     (if a \<in> wakeup_addrs ps then t else token (wakeups w a))"
  by (induction ps arbitrary: w) auto

lemma set_tokens_mark [simp]: "set_tokens t (map (mark_ready u) ps) w = set_tokens t ps w"
  by (induction ps arbitrary: w) auto

text \<open>
  The whole call in closed form.  \<open>entered\<close> is the machine after the entry loop, \<open>due\<close> the
  deadline that the call computes, \<open>left\<close> what is left of it at the second reading of the
  clock, \<open>asleep\<close> the machine on which the sleep hook is entered.
\<close>

lemma g_poll_none_eq:
  "g_poll_none S tok ps T w =
     (let entered = set_tokens (Some tok) ps (if T = - 1 then w else snd (g_get_monotonic_time w));
          due = (if T = - 1 then G_MAXINT64 else gint64 (fst (g_get_monotonic_time w) + T * 1000));
          left = due - fst (g_get_monotonic_time entered);
          asleep = (if T = - 1 then entered else snd (g_get_monotonic_time entered))
      in if filter (wake_ready w) ps \<noteq> [] \<or> T = 0
         then (int (length (filter (wake_ready w) ps)), map (mark_ready w) ps,
               set_tokens None ps entered)
         else if T \<noteq> - 1 \<and> left \<le> 0
         then (0, map (mark_ready w) ps, set_tokens None ps asleep)
         else (let v = S tok (if T = - 1 then G_WAIT_INFINITE else gint64 left) asleep
               in (int (length (filter (wake_ready v) ps)), map (mark_ready v) ps,
                   set_tokens None ps v)))"
  unfolding g_poll_none_def poll_loop_first Let_def G_TIME_SPAN_MILLISECOND_def
  by (simp add: case_prod_beta)

text \<open>
  C7: in the bare-metal backend \<^verbatim>\<open>g_poll\<close> stores the call's token in the \<open>token\<close> field of
  every wakeup handle of the poll set at entry and \<^verbatim>\<open>NULL\<close> at exit, on every path: these are
  the stores of the call, in this order, whenever the sleep hook makes none of its own.  The
  sleep hook is only ever entered on a machine in which all these handles carry the token
  (two hooks that agree on such machines give the same call), and a call with no timeout
  and no handle signalled at entry does enter it, on the machine that the entry loop leaves,
  and returns the readiness pass on the machine that the hook returns, with the tokens
  cleared.  When \<^verbatim>\<open>g_poll\<close> returns, on whichever path, the \<open>token\<close> field of every handle of
  the set is \<^verbatim>\<open>NULL\<close>.  The code of \<^verbatim>\<open>g_poll\<close> never writes a \<open>signalled\<close> flag: a flag that the
  sleep hook leaves alone is the same after the call as before, also when the call returns
  because of another handle.
\<close>

theorem g_poll_none_token_frame:
  assumes res: "g_poll_none S tok ps T w = (ready, ps', w')"
  shows "((\<forall>t v. stores (S tok t v) = stores v) \<longrightarrow>
            stores w' = stores w @ map (\<lambda>a. (a, Some tok)) (wakeup_entries ps) @
                                   map (\<lambda>a. (a, None)) (wakeup_entries ps)) \<and>
         (\<forall>S'. (\<forall>t v. (\<forall>a \<in> wakeup_addrs ps. token (wakeups v a) = Some tok) \<longrightarrow>
                        S' tok t v = S tok t v) \<longrightarrow>
               g_poll_none S' tok ps T w = g_poll_none S tok ps T w) \<and>
         (T = - 1 \<and> (\<forall>p \<in> set ps. \<not> wake_ready w p) \<longrightarrow>
            (let v = S tok G_WAIT_INFINITE (set_tokens (Some tok) ps w)
             in ready = int (length (filter (wake_ready v) ps)) \<and> ps' = map (mark_ready v) ps \<and>
                w' = set_tokens None ps v)) \<and>
         (\<forall>a \<in> wakeup_addrs ps. token (wakeups w' a) = None) \<and>
         (\<forall>a. (\<forall>t v. signalled (wakeups (S tok t v) a) = signalled (wakeups v a)) \<longrightarrow>
               signalled (wakeups w' a) = signalled (wakeups w a))"
proof (intro conjI allI impI ballI)
  assume "\<forall>t v. stores (S tok t v) = stores v"
  with res show "stores w' = stores w @ map (\<lambda>a. (a, Some tok)) (wakeup_entries ps) @
                                   map (\<lambda>a. (a, None)) (wakeup_entries ps)"
    by (auto simp: g_poll_none_eq Let_def set_tokens_stores split: if_splits)
next
  fix S'
  assume agree: "\<forall>t v. (\<forall>a \<in> wakeup_addrs ps. token (wakeups v a) = Some tok) \<longrightarrow>
                   S' tok t v = S tok t v"
  have "S' tok t (set_tokens (Some tok) ps v) = S tok t (set_tokens (Some tok) ps v)" for t v
    using agree by (simp add: set_tokens_token)
  moreover have "S' tok t (snd (g_get_monotonic_time (set_tokens (Some tok) ps v))) =
                 S tok t (snd (g_get_monotonic_time (set_tokens (Some tok) ps v)))" for t v
    using agree by (simp add: set_tokens_token)
  ultimately show "g_poll_none S' tok ps T w = g_poll_none S tok ps T w"
    by (simp add: g_poll_none_eq Let_def)
next
  assume "T = - 1 \<and> (\<forall>p \<in> set ps. \<not> wake_ready w p)"
  then have T: "T = - 1" and none: "filter (wake_ready w) ps = []"
    by (simp_all add: filter_empty_conv)
  from res show "let v = S tok G_WAIT_INFINITE (set_tokens (Some tok) ps w)
     in ready = int (length (filter (wake_ready v) ps)) \<and> ps' = map (mark_ready v) ps \<and>
        w' = set_tokens None ps v"
    unfolding g_poll_none_eq Let_def T using none by simp
next
  fix a assume "a \<in> wakeup_addrs ps"
  with res show "token (wakeups w' a) = None"
    by (auto simp: g_poll_none_eq Let_def set_tokens_token split: if_splits)
next
  fix a
  assume "\<forall>t v. signalled (wakeups (S tok t v) a) = signalled (wakeups v a)"
  with res show "signalled (wakeups w' a) = signalled (wakeups w a)"
    by (auto simp: g_poll_none_eq Let_def split: if_splits)
qed

lemma wake_ready_signal:
  "wake_ready (g_wakeup_signal a w) p \<longleftrightarrow>
     fd p = G_WAIT_WAKEUP_HANDLE \<and> (user_data p = a \<or> signalled (wakeups w (user_data p)))"
  by (auto simp: wake_ready_def g_wakeup_signal_def g_wait_wake_def Let_def split: option.splits)

lemma wake_ready_acknowledge:
  "wake_ready (g_wakeup_acknowledge a w) p \<longleftrightarrow>
     fd p = G_WAIT_WAKEUP_HANDLE \<and> user_data p \<noteq> a \<and> signalled (wakeups w (user_data p))"
  by (auto simp: wake_ready_def g_wakeup_acknowledge_def)

lemma g_poll_none_nonblocking:
  "g_poll_none S tok ps 0 w =
     (int (length (filter (wake_ready w) ps)), map (mark_ready w) ps,
      set_tokens None ps (set_tokens (Some tok) ps (snd (g_get_monotonic_time w))))"
  by (simp add: g_poll_none_eq)

text \<open>
  C3, as amended: after \<^verbatim>\<open>g_wakeup_signal (w)\<close> a non-blocking \<^verbatim>\<open>g_poll\<close> (timeout 0) on a set
  that holds \<open>w\<close>'s descriptor returns a positive count and that descriptor's result is
  \<^verbatim>\<open>G_IO_IN\<close>; after \<^verbatim>\<open>g_wakeup_acknowledge (w)\<close> the next non-blocking \<^verbatim>\<open>g_poll\<close> on the set
  leaves that descriptor's result empty and returns the number of entries whose own handle,
  another one than \<open>w\<close>, is signalled: it returns 0 when no other handle of the set is
  signalled.
\<close>

theorem wakeup_signal_poll_acknowledge:
  assumes i: "i < length ps" "fd (ps ! i) = G_WAIT_WAKEUP_HANDLE" "user_data (ps ! i) = a"
    and p1: "g_poll_none S tok ps 0 (g_wakeup_signal a w) = (r1, ps1, w1)"
    and p2: "g_poll_none S tok ps1 0 (g_wakeup_acknowledge a w1) = (r2, ps2, w2)"
  shows "0 < r1 \<and> revents (ps1 ! i) = G_IO_IN \<and> revents (ps1 ! i) AND G_IO_IN \<noteq> 0 \<and>
         revents (ps2 ! i) = 0 \<and>
         r2 = int (length (filter (\<lambda>p. fd p = G_WAIT_WAKEUP_HANDLE \<and> user_data p \<noteq> a \<and>
                                        signalled (wakeups w (user_data p))) ps)) \<and>
         ((\<forall>p \<in> set ps. fd p = G_WAIT_WAKEUP_HANDLE \<and> user_data p \<noteq> a \<longrightarrow>
                          \<not> signalled (wakeups w (user_data p))) \<longrightarrow> r2 = 0)"
proof -
  let ?ws = "g_wakeup_signal a w"
  from p1 have r1: "r1 = int (length (filter (wake_ready ?ws) ps))"
    and ps1: "ps1 = map (mark_ready ?ws) ps"
    and w1: "w1 = set_tokens None ps (set_tokens (Some tok) ps (snd (g_get_monotonic_time ?ws)))"
    by (simp_all add: g_poll_none_nonblocking)
  have rdy: "wake_ready ?ws (ps ! i)"
    using i by (simp add: wake_ready_signal)
  have "ps ! i \<in> set (filter (wake_ready ?ws) ps)"
    using i rdy by simp
  then have "filter (wake_ready ?ws) ps \<noteq> []" by fastforce
  then have pos: "0 < r1" by (simp add: r1)
  have rev1: "revents (ps1 ! i) = G_IO_IN"
    using i rdy by (simp add: ps1)
  have sig1: "signalled (wakeups w1 b) = (b = a \<or> signalled (wakeups w b))" for b
    by (simp add: w1 g_wakeup_signal_def g_wait_wake_def Let_def split: option.splits)
  let ?wa = "g_wakeup_acknowledge a w1"
  have wr: "wake_ready ?wa p \<longleftrightarrow>
      fd p = G_WAIT_WAKEUP_HANDLE \<and> user_data p \<noteq> a \<and> signalled (wakeups w (user_data p))" for p
    by (auto simp: wake_ready_acknowledge sig1)
  from p2 have r2: "r2 = int (length (filter (wake_ready ?wa) ps))"
    and ps2: "ps2 = map (mark_ready ?wa) ps"
    by (simp_all add: g_poll_none_nonblocking ps1)
  have rev2: "revents (ps2 ! i) = 0"
    using i by (simp add: ps2 wr)
  have cnt: "r2 = int (length (filter (\<lambda>p. fd p = G_WAIT_WAKEUP_HANDLE \<and> user_data p \<noteq> a \<and>
                                        signalled (wakeups w (user_data p))) ps))"
    unfolding r2 using wr by presburger
  have zero: "r2 = 0"
    if "\<forall>p \<in> set ps. fd p = G_WAIT_WAKEUP_HANDLE \<and> user_data p \<noteq> a \<longrightarrow>
                          \<not> signalled (wakeups w (user_data p))"
    using that unfolding cnt by (auto simp: filter_empty_conv)
  show ?thesis
    using pos rev1 rev2 cnt zero by (simp add: G_IO_IN_def)
qed

text \<open>Readings of the clock that fit a \<^verbatim>\<open>gint64\<close>.\<close>

lemma gint64_fits: "0 \<le> x \<Longrightarrow> x \<le> G_MAXINT64 \<Longrightarrow> gint64 x = x"
  by (simp add: gint64_def G_MAXINT64_def)

lemma read_clock_sum:
  "clock (snd (g_get_monotonic_time w)) + int (sum_list (delays (snd (g_get_monotonic_time w)))) =
     clock w + int (sum_list (delays w))"
  by (simp add: g_get_monotonic_time_def Let_def split: list.splits)

lemma read_clock_mono: "clock w \<le> clock (snd (g_get_monotonic_time w))"
  by (simp add: g_get_monotonic_time_def Let_def split: list.splits)

lemma read_clock_value:
  "fst (g_get_monotonic_time w) = gint64 (clock (snd (g_get_monotonic_time w)))"
  by (simp add: g_get_monotonic_time_def Let_def)

lemma read_clock_fits:
  assumes "0 \<le> clock w" "clock w + int (sum_list (delays w)) \<le> G_MAXINT64"
  shows "fst (g_get_monotonic_time w) = clock (snd (g_get_monotonic_time w))"
proof -
  have "clock (snd (g_get_monotonic_time w)) \<le> clock w + int (sum_list (delays w))"
    using read_clock_sum [of w] by linarith
  with assms read_clock_mono [of w] show ?thesis
    unfolding read_clock_value by (intro gint64_fits) linarith+
qed


lemma clock_read_set_tokens [simp]:
  "clock (snd (g_get_monotonic_time (set_tokens t ps w))) = clock (snd (g_get_monotonic_time w))"
  by (simp add: g_get_monotonic_time_def Let_def split: list.splits)

text \<open>
  C6, as amended: take a call of the bare-metal \<^verbatim>\<open>g_poll\<close> with a timeout of \<open>T \<ge> 0\<close>
  milliseconds and no handle of the set signalled at entry, on a clock that is not negative
  and stays \<open>T * 1000\<close> microseconds below \<^verbatim>\<open>G_MAXINT64\<close>, so that the deadline (the clock as
  the call first reads it, plus \<open>T * 1000\<close>) fits a \<^verbatim>\<open>gint64\<close>.  If the sleep hook never
  returns before its timeout has elapsed, the call does not return before the deadline.
  The deadline is not looked at again after the sleep: when \<open>T > 0\<close> and the second reading
  of the clock is before the deadline, the call enters the hook once, for the time then left,
  makes one readiness pass on the machine the hook returns and returns it, whatever the
  clock says by then.
\<close>

theorem g_poll_none_deadline:
  assumes T: "0 \<le> T"
    and start: "0 \<le> clock w"
    and fits: "clock w + int (sum_list (delays w)) + T * 1000 \<le> G_MAXINT64"
    and quiet: "\<forall>p \<in> set ps. fd p = G_WAIT_WAKEUP_HANDLE \<longrightarrow> \<not> signalled (wakeups w (user_data p))"
    and res: "g_poll_none S tok ps T w = (r, ps', w')"
  shows "((\<forall>t v. 0 \<le> t \<longrightarrow> clock v + t \<le> clock (S tok t v)) \<longrightarrow>
            fst (g_get_monotonic_time w) + T * 1000 \<le> clock w') \<and>
         (let entered = set_tokens (Some tok) ps (snd (g_get_monotonic_time w));
              left = fst (g_get_monotonic_time w) + T * 1000 - fst (g_get_monotonic_time entered);
              v = S tok left (snd (g_get_monotonic_time entered))
          in 0 < T \<and> 0 < left \<longrightarrow>
               r = int (length (filter (wake_ready v) ps)) \<and> ps' = map (mark_ready v) ps \<and>
               w' = set_tokens None ps v)"
proof -
  define w0 where "w0 = snd (g_get_monotonic_time w)"
  define now where "now = fst (g_get_monotonic_time w)"
  define entered where "entered = set_tokens (Some tok) ps w0"
  define now2 where "now2 = fst (g_get_monotonic_time entered)"
  define asleep where "asleep = snd (g_get_monotonic_time entered)"
  define left where "left = now + T * 1000 - now2"
  have T1: "0 \<le> T * 1000" using T by simp
  have none: "filter (wake_ready w) ps = []"
    using quiet by (simp add: filter_empty_conv wake_ready_def)
  have sum0: "clock w0 + int (sum_list (delays w0)) = clock w + int (sum_list (delays w))"
    unfolding w0_def by (rule read_clock_sum)
  have c0: "clock w \<le> clock w0" unfolding w0_def by (rule read_clock_mono)
  have now: "now = clock w0"
    unfolding now_def w0_def using start fits T1 by (intro read_clock_fits) linarith+
  have now2: "now2 = clock asleep"
  proof -
    have "fst (g_get_monotonic_time w0) = clock (snd (g_get_monotonic_time w0))"
      using start c0 sum0 fits T1 by (intro read_clock_fits) linarith+
    then show ?thesis by (simp add: now2_def asleep_def entered_def)
  qed
  have c2: "clock w0 \<le> clock asleep"
    using read_clock_mono [of w0] by (simp add: asleep_def entered_def)
  have up: "clock asleep \<le> clock w + int (sum_list (delays w))"
  proof -
    have "clock asleep + int (sum_list (delays (snd (g_get_monotonic_time w0)))) =
          clock w0 + int (sum_list (delays w0))"
      using read_clock_sum [of w0] by (simp add: asleep_def entered_def)
    with sum0 show ?thesis by linarith
  qed
  have due: "gint64 (now + T * 1000) = now + T * 1000"
    using now start c0 c2 up fits T1 by (intro gint64_fits) linarith+
  have lft: "gint64 left = left" if "0 < left"
    using that now now2 start c0 c2 up fits T1 unfolding left_def
    by (intro gint64_fits) linarith+
  have neq: "T \<noteq> - 1" using T by simp
  have call: "g_poll_none S tok ps T w =
      (if T = 0 then (0, map (mark_ready w) ps, set_tokens None ps entered)
       else if left \<le> 0 then (0, map (mark_ready w) ps, set_tokens None ps asleep)
       else (let v = S tok left asleep
             in (int (length (filter (wake_ready v) ps)), map (mark_ready v) ps,
                 set_tokens None ps v)))"
    unfolding g_poll_none_eq Let_def
    using neq none due lft
    by (simp add: now_def [symmetric] w0_def [symmetric] entered_def [symmetric]
          now2_def [symmetric] asleep_def [symmetric] left_def [symmetric])
  have bound: "now + T * 1000 \<le> clock w'"
    if punctual: "\<forall>t v. 0 \<le> t \<longrightarrow> clock v + t \<le> clock (S tok t v)"
  proof (cases "T = 0")
    case True
    with res call have "w' = set_tokens None ps entered" by simp
    with True now show ?thesis by (simp add: entered_def)
  next
    case False
    show ?thesis
    proof (cases "left \<le> 0")
      case True
      with res call False have "w' = set_tokens None ps asleep" by simp
      with True now2 show ?thesis by (simp add: left_def)
    next
      case nl: False
      with res call False have w': "w' = set_tokens None ps (S tok left asleep)"
        by (simp add: Let_def)
      from nl punctual have "clock asleep + left \<le> clock (S tok left asleep)" by simp
      with w' now2 show ?thesis by (simp add: left_def)
    qed
  qed
  have sleep: "r = int (length (filter (wake_ready (S tok left asleep)) ps)) \<and>
               ps' = map (mark_ready (S tok left asleep)) ps \<and>
               w' = set_tokens None ps (S tok left asleep)"
    if "0 < T" "0 < left"
    using that res call by (simp add: Let_def)
  from bound sleep show ?thesis
    unfolding Let_def now_def left_def now2_def asleep_def entered_def w0_def by blast
qed

text \<open>
  C6 as stated fails: when the sleep hook returns after one microsecond, a call with a
  timeout of 100 ms and nothing signalled returns 0 one microsecond after entry.
\<close>

theorem g_poll_none_spurious_wake:
  "(case g_poll_none early_sleep 7 [g_wakeup_get_pollfd 5 blank_fd] 100 idle_world of
      (r, ps', w') \<Rightarrow> r = 0 \<and> clock w' = 1 \<and> clock w' < clock idle_world + 100 * 1000)"
  by (simp add: g_poll_none_eq wake_ready_def g_wakeup_get_pollfd_def idle_world_def
        early_sleep_def blank_fd_def g_get_monotonic_time_def gint64_def Let_def)

theorem g_poll_none_deadline_witness:
  "fst (g_get_monotonic_time busy_world) + 100 * 1000 \<le>
     clock (snd (snd (g_poll_none punctual_sleep 7 [g_wakeup_get_pollfd 5 blank_fd] 100 busy_world))) \<and>
   snd (snd (g_poll_none punctual_sleep 7 [g_wakeup_get_pollfd 5 blank_fd] 100 busy_world)) =
     set_tokens None [g_wakeup_get_pollfd 5 blank_fd]
       (punctual_sleep 7 99750
          (snd (g_get_monotonic_time
             (set_tokens (Some 7) [g_wakeup_get_pollfd 5 blank_fd]
                (snd (g_get_monotonic_time busy_world))))))"
proof -
  let ?ps = "[g_wakeup_get_pollfd 5 blank_fd]"
  obtain r ps' w' where
    res: "g_poll_none punctual_sleep 7 ?ps 100 busy_world = (r, ps', w')"
    by (metis prod_cases3)
  have T: "(0::int) \<le> 100" by simp
  have start: "0 \<le> clock busy_world" by (simp add: busy_world_def idle_world_def)
  have fits: "clock busy_world + int (sum_list (delays busy_world)) + 100 * 1000 \<le> G_MAXINT64"
    by (simp add: busy_world_def idle_world_def G_MAXINT64_def)
  have punctual: "\<forall>t v. 0 \<le> t \<longrightarrow> clock v + t \<le> clock (punctual_sleep 7 t v)"
    by (simp add: punctual_sleep_def)
  have quiet: "\<forall>p \<in> set ?ps.
      fd p = G_WAIT_WAKEUP_HANDLE \<longrightarrow> \<not> signalled (wakeups busy_world (user_data p))"
    by (simp add: busy_world_def idle_world_def)
  have left: "fst (g_get_monotonic_time busy_world) + 100 * 1000 -
      fst (g_get_monotonic_time (set_tokens (Some 7) ?ps (snd (g_get_monotonic_time busy_world)))) =
      99750"
    by (simp add: g_get_monotonic_time_def busy_world_def idle_world_def gint64_def Let_def)
  note th = g_poll_none_deadline [OF T start fits quiet res]
  from th punctual have A: "fst (g_get_monotonic_time busy_world) + 100 * 1000 \<le> clock w'"
    by blast
  from th have B: "w' = set_tokens None ?ps
       (punctual_sleep 7 99750
          (snd (g_get_monotonic_time (set_tokens (Some 7) ?ps (snd (g_get_monotonic_time busy_world))))))"
    unfolding Let_def left by simp
  from A B show ?thesis by (simp only: res snd_conv)
qed

text \<open>
  C3 as stated fails: with two signalled handles in the set, acknowledging the first leaves
  the next non-blocking call returning 1, not 0.
\<close>

theorem wakeup_signal_poll_acknowledge_other_handle:
  "(case g_poll_none early_sleep 7 [g_wakeup_get_pollfd 5 blank_fd, g_wakeup_get_pollfd 6 blank_fd] 0
           (g_wakeup_signal 5 (g_wakeup_signal 6 idle_world)) of
      (r1, ps1, w1) \<Rightarrow>
        (case g_poll_none early_sleep 7 ps1 0 (g_wakeup_acknowledge 5 w1) of
           (r2, ps2, w2) \<Rightarrow> r1 = 2 \<and> r2 = 1 \<and> revents (ps2 ! 0) = 0))"
  by (simp add: g_poll_none_nonblocking wake_ready_signal wake_ready_acknowledge
        g_wakeup_get_pollfd_def idle_world_def blank_fd_def wake_ready_def mark_ready_def
        g_wakeup_signal_def g_wakeup_acknowledge_def Let_def)

theorem wakeup_signal_poll_acknowledge_witness:
  "(case g_poll_none early_sleep 7 [g_wakeup_get_pollfd 5 blank_fd, blank_fd] 0
           (g_wakeup_signal 5 idle_world) of
      (r1, ps1, w1) \<Rightarrow>
        (case g_poll_none early_sleep 7 ps1 0 (g_wakeup_acknowledge 5 w1) of
           (r2, ps2, w2) \<Rightarrow>
             0 < r1 \<and> revents (ps1 ! 0) = G_IO_IN \<and> revents (ps2 ! 0) = 0 \<and> r2 = 0))"
proof -
  let ?ps = "[g_wakeup_get_pollfd 5 blank_fd, blank_fd]"
  obtain r1 ps1 w1 where
    p1: "g_poll_none early_sleep 7 ?ps 0 (g_wakeup_signal 5 idle_world) = (r1, ps1, w1)"
    by (metis prod_cases3)
  obtain r2 ps2 w2 where
    p2: "g_poll_none early_sleep 7 ps1 0 (g_wakeup_acknowledge 5 w1) = (r2, ps2, w2)"
    by (metis prod_cases3)
  have i: "0 < length ?ps" "fd (?ps ! 0) = G_WAIT_WAKEUP_HANDLE" "user_data (?ps ! 0) = 5"
    by (simp_all add: g_wakeup_get_pollfd_def)
  have quiet: "\<forall>p \<in> set ?ps. fd p = G_WAIT_WAKEUP_HANDLE \<and> user_data p \<noteq> 5 \<longrightarrow>
      \<not> signalled (wakeups idle_world (user_data p))"
    by (simp add: idle_world_def)
  from wakeup_signal_poll_acknowledge [OF i p1 p2] quiet
  have "0 < r1 \<and> revents (ps1 ! 0) = G_IO_IN \<and> revents (ps2 ! 0) = 0 \<and> r2 = 0"
    by blast
  then show ?thesis by (simp add: p1 p2)
qed

text \<open>A call with no timeout on a poll set of two handles: while it sleeps, the second
  handle is signalled, and the call returns because of it.\<close>

theorem g_poll_none_token_frame_witness:
  "(case g_poll_none (signalled_sleep 6) 7
           [g_wakeup_get_pollfd 5 blank_fd, g_wakeup_get_pollfd 6 blank_fd] (- 1) idle_world of
      (r, ps', w') \<Rightarrow>
        r = 1 \<and> map revents ps' = [0, G_IO_IN] \<and>
        stores w' = [(5, Some 7), (6, Some 7), (5, None), (6, None)] \<and>
        woken w' = [7] \<and>
        token (wakeups w' 5) = None \<and> token (wakeups w' 6) = None \<and>
        \<not> signalled (wakeups w' 5) \<and> signalled (wakeups w' 6))"
proof -
  let ?ps = "[g_wakeup_get_pollfd 5 blank_fd, g_wakeup_get_pollfd 6 blank_fd]"
  let ?v = "signalled_sleep 6 7 G_WAIT_INFINITE (set_tokens (Some 7) ?ps idle_world)"
  obtain r ps' w' where res: "g_poll_none (signalled_sleep 6) 7 ?ps (- 1) idle_world = (r, ps', w')"
    by (metis prod_cases3)
  have a: "5 \<in> wakeup_addrs ?ps" "6 \<in> wakeup_addrs ?ps"
    by (simp_all add: g_wakeup_get_pollfd_def)
  have e: "wakeup_entries ?ps = [5, 6]"
    by (simp add: g_wakeup_get_pollfd_def)
  have quiet: "\<forall>t v. stores (signalled_sleep 6 7 t v) = stores v"
    by (simp add: signalled_sleep_def g_wakeup_signal_def g_wait_wake_def Let_def
          split: option.splits)
  have keep: "\<forall>t v. signalled (wakeups (signalled_sleep 6 7 t v) 5) = signalled (wakeups v 5)"
    by (simp add: signalled_sleep_def g_wakeup_signal_def g_wait_wake_def Let_def
          split: option.splits)
  have s: "\<not> signalled (wakeups idle_world 5)" "stores idle_world = []"
    by (simp_all add: idle_world_def)
  have none: "(- 1 :: int) = - 1 \<and> (\<forall>p \<in> set ?ps. \<not> wake_ready idle_world p)"
    by (simp add: wake_ready_def idle_world_def)
  note th = g_poll_none_token_frame [OF res]
  from th a quiet keep s e
  have frame: "stores w' = [(5, Some 7), (6, Some 7), (5, None), (6, None)] \<and>
        token (wakeups w' 5) = None \<and> token (wakeups w' 6) = None \<and> \<not> signalled (wakeups w' 5)"
    by simp
  from th none have slept: "r = int (length (filter (wake_ready ?v) ?ps)) \<and>
        ps' = map (mark_ready ?v) ?ps \<and> w' = set_tokens None ?ps ?v"
    unfolding Let_def by blast
  have v: "wake_ready ?v (g_wakeup_get_pollfd 6 blank_fd)"
      "\<not> wake_ready ?v (g_wakeup_get_pollfd 5 blank_fd)" "woken ?v = [7]"
      "signalled (wakeups ?v 6)"
    by (simp_all add: wake_ready_def g_wakeup_get_pollfd_def idle_world_def blank_fd_def
          signalled_sleep_def g_wakeup_signal_def g_wait_wake_def Let_def)
  from slept v have rest: "r = 1 \<and> map revents ps' = [0, G_IO_IN] \<and> woken w' = [7] \<and>
        signalled (wakeups w' 6)"
    by simp
  from frame rest show ?thesis by (simp add: res)
qed

theorem g_wait_is_set_iff_witness:
  "g_wait_is_set (g_wakeup_signal 5 idle_world)
      \<lparr>op_fds = [g_wakeup_get_pollfd 5 blank_fd, blank_fd], op_nfds = 2\<rparr> \<and>
   \<not> g_wait_is_set (g_wakeup_signal 5 idle_world) \<lparr>op_fds = [blank_fd, blank_fd], op_nfds = 2\<rparr>"
proof -
  let ?w = "g_wakeup_signal 5 idle_world"
  let ?op = "\<lparr>op_fds = [g_wakeup_get_pollfd 5 blank_fd, blank_fd], op_nfds = 2\<rparr>"
  let ?op' = "\<lparr>op_fds = [blank_fd, blank_fd], op_nfds = 2\<rparr>"
  have "\<exists>i < op_nfds ?op. i < length (op_fds ?op) \<and> fd (op_fds ?op ! i) = G_WAIT_WAKEUP_HANDLE \<and>
         signalled (wakeups ?w (user_data (op_fds ?op ! i)))"
    by (intro exI[of _ 0])
       (simp add: g_wakeup_get_pollfd_def g_wakeup_signal_def idle_world_def Let_def)
  with g_wait_is_set_iff [of ?w ?op] have A: "g_wait_is_set ?w ?op" by blast
  have "\<forall>i < op_nfds ?op'. i < length (op_fds ?op') \<longrightarrow> fd (op_fds ?op' ! i) \<noteq> G_WAIT_WAKEUP_HANDLE"
    by (simp add: blank_fd_def G_WAIT_WAKEUP_HANDLE_def nth_Cons split: nat.splits)
  with g_wait_is_set_iff [of ?w ?op'] have B: "\<not> g_wait_is_set ?w ?op'" by blast
  from A B show ?thesis by blast
qed

lemma g_poll_none_count:
  assumes "g_poll_none S tok ps T w = (r, ps', w')"
  shows "r = int (length (filter (\<lambda>f. revents f \<noteq> 0) ps'))"
proof -
  have len: "length (filter (\<lambda>f. revents f \<noteq> 0) (map (mark_ready v) ps)) =
        length (filter (wake_ready v) ps)" for v
    by (induction ps) (simp_all add: G_IO_IN_def)
  have "filter (\<lambda>f. revents f \<noteq> 0) (map (mark_ready w) ps) = []"
    if "filter (wake_ready w) ps = []"
    using that by (induction ps) (simp_all split: if_splits)
  with assms len show ?thesis
    by (auto simp: g_poll_none_eq Let_def split: if_splits)
qed

section \<open>Properties of the \<^verbatim>\<open>select\<close> backend\<close>

lemma g_poll_select_not_ready:
  "fst (g_poll_select select fds T) \<le> 0 \<Longrightarrow> snd (g_poll_select select fds T) = fds"
  by (auto simp: g_poll_select_def Let_def split: prod.splits if_splits)

lemma Collect_single: "{d. d = a \<and> P d} = (if P a then {a} else {})"
  by auto

text \<open>
  C1 fails in the \<^verbatim>\<open>select\<close> build: \<^verbatim>\<open>g_poll\<close> returns what \<^verbatim>\<open>select\<close> returns, the number
  of bits set in the three sets.  One descriptor asked for reading and writing and ready for
  both gives 2, while one entry of the poll set has a result.  (In the bare-metal and the
  kqueue build the value returned is the number of entries with a result: see
  \<open>g_poll_none_count\<close>, and \<open>g_poll_kqueue_count\<close> below.)
\<close>

theorem g_poll_select_counts_bits:
  "g_poll_select (posix_select {3} {3} {}) [blank_fd\<lparr>fd := 3, events := G_IO_IN OR G_IO_OUT\<rparr>] 0 =
     (2, [blank_fd\<lparr>fd := 3, events := G_IO_IN OR G_IO_OUT, revents := G_IO_IN OR G_IO_OUT\<rparr>]) \<and>
   length (filter (\<lambda>f. revents f \<noteq> 0)
     (snd (g_poll_select (posix_select {3} {3} {})
        [blank_fd\<lparr>fd := 3, events := G_IO_IN OR G_IO_OUT\<rparr>] 0))) = 1"
  by (simp add: g_poll_select_def posix_select_def derive_revents_def blank_fd_def Let_def
        G_IO_IN_def G_IO_OUT_def G_IO_PRI_def Collect_single)

text \<open>
  C2 fails in the \<^verbatim>\<open>select\<close> build: the results are cleared inside \<^verbatim>\<open>if (ready > 0)\<close>
  only.  A call that times out returns 0 and leaves in the result field what the caller
  passed in.  (The kqueue build clears them before it reads the events: see
  \<open>g_poll_kqueue_timeout_clears\<close> below.)
\<close>

theorem g_poll_select_stale_revents:
  "g_poll_select (posix_select {} {} {}) [blank_fd\<lparr>fd := 3, events := G_IO_IN, revents := G_IO_IN\<rparr>] 0 =
     (0, [blank_fd\<lparr>fd := 3, events := G_IO_IN, revents := G_IO_IN\<rparr>]) \<and>
   revents (blank_fd\<lparr>fd := 3, events := G_IO_IN, revents := G_IO_IN\<rparr>) \<noteq> 0"
  by (simp add: g_poll_select_def posix_select_def derive_revents_def blank_fd_def Let_def
        G_IO_IN_def G_IO_OUT_def G_IO_PRI_def Collect_single)

section \<open>Properties of the kernel-event-queue backend\<close>

lemma signal_kq_unrealized:
  "kq (kq_wakeups w a) = - 1 \<Longrightarrow>
   g_wakeup_signal_kq sys a w =
     w\<lparr>kq_wakeups := (kq_wakeups w)(a := (kq_wakeups w a)\<lparr>pending := pending (kq_wakeups w a) + 1\<rparr>)\<rparr>"
  by (simp add: g_wakeup_signal_kq_def g_wakeup_signal_unlocked_def)

text \<open>The handle at address \<open>a\<close> with its counter moved on by \<open>n\<close>.\<close>

lemma signal_kq_funpow:
  "kq (kq_wakeups w a) = - 1 \<Longrightarrow>
   (g_wakeup_signal_kq sys a ^^ n) w =
     w\<lparr>kq_wakeups := (kq_wakeups w)
          (a := (kq_wakeups w a)\<lparr>pending := pending (kq_wakeups w a) + of_nat n\<rparr>)\<rparr>"
proof (induction n)
  case 0
  then show ?case by simp
next
  case (Suc n)
  let ?v = "w\<lparr>kq_wakeups := (kq_wakeups w)
          (a := (kq_wakeups w a)\<lparr>pending := pending (kq_wakeups w a) + of_nat n\<rparr>)\<rparr>"
  have v: "kq (kq_wakeups ?v a) = - 1" using Suc.prems by simp
  have "(g_wakeup_signal_kq sys a ^^ Suc n) w =
          g_wakeup_signal_kq sys a ((g_wakeup_signal_kq sys a ^^ n) w)"
    by simp
  also have "\<dots> = g_wakeup_signal_kq sys a ?v"
    by (simp only: Suc.IH [OF Suc.prems])
  also have "\<dots> = ?v\<lparr>kq_wakeups := (kq_wakeups ?v)
          (a := (kq_wakeups ?v a)\<lparr>pending := pending (kq_wakeups ?v a) + 1\<rparr>)\<rparr>"
    by (rule signal_kq_unrealized [OF v])
  also have "\<dots> = w\<lparr>kq_wakeups := (kq_wakeups w)
          (a := (kq_wakeups w a)\<lparr>pending := pending (kq_wakeups w a) + of_nat (Suc n)\<rparr>)\<rparr>"
    by (simp add: ac_simps)
  finally show ?case .
qed

lemma two_32: "(of_nat (2 ^ 32) :: 32 word) = 0"
  by simp

lemma signal_kq_wraps:
  "kq (kq_wakeups w a) = - 1 \<Longrightarrow> (g_wakeup_signal_kq sys a ^^ (2 ^ 32)) w = w"
  by (simp only: signal_kq_funpow two_32) simp

lemmas kq_eval =
  g_poll_kqueue_def model_sys_def model_kqueue_def g_wakeup_get_pollfd_kq_def blank_fd_def
  num_wakeup_fds_def model_kevent_def EV_SET_def apply_change_def EV_ADD_def EV_DELETE_def
  g_wakeup_kqueue_realize_def g_wakeup_signal_unlocked_def NOTE_TRIGGER_def same_note_def
  deliver_def kq_results_def process_event_def on_user_def G_IO_IN_def kq_beach_def
  g_wakeup_kqueue_unrealize_def model_close_def Let_def

lemma kq_fresh [simp]: "kq (kq_wakeups fresh_kq_world a) = - 1"
  by (simp add: fresh_kq_world_def)

lemma kq_poll_signalled_once:
  "g_poll_kqueue model_sys [g_wakeup_get_pollfd_kq 5 blank_fd] 0
     (g_wakeup_signal_kq model_sys 5 fresh_kq_world) =
   (1, [g_wakeup_get_pollfd_kq 5 blank_fd\<lparr>revents := G_IO_IN\<rparr>],
    fresh_kq_world\<lparr>kq_wakeups := (kq_wakeups fresh_kq_world)(5 := \<lparr>kq = - 1, pending = 2\<rparr>),
                   kernel := (kernel fresh_kq_world)\<lparr>next_kq := 4\<rparr>\<rparr>)"
  by (simp add: signal_kq_unrealized) (simp add: fresh_kq_world_def kq_eval)

lemma kq_poll_unsignalled:
  "g_poll_kqueue model_sys [g_wakeup_get_pollfd_kq 5 blank_fd] 0 fresh_kq_world =
   (0, [g_wakeup_get_pollfd_kq 5 blank_fd],
    fresh_kq_world\<lparr>kernel := (kernel fresh_kq_world)\<lparr>next_kq := 4\<rparr>\<rparr>)"
  by (simp add: fresh_kq_world_def kq_eval fun_upd_idem_iff)

text \<open>
  C4 fails in the kqueue build: \<open>pending\<close> is a 32-bit counter that every signal increments.
  After \<open>2^32\<close> signals with no acknowledge in between the handle is in the state of a
  handle that was never signalled, and the next \<^verbatim>\<open>g_poll\<close> reports nothing, where after one
  signal it reports the handle readable.
\<close>

theorem g_wakeup_signal_kq_counter_wraps:
  "(g_wakeup_signal_kq model_sys 5 ^^ (2 ^ 32)) fresh_kq_world = fresh_kq_world \<and>
   (case g_poll_kqueue model_sys [g_wakeup_get_pollfd_kq 5 blank_fd] 0
           (g_wakeup_signal_kq model_sys 5 fresh_kq_world) of
      (r, ps, w) \<Rightarrow> r = 1 \<and> revents (ps ! 0) = G_IO_IN) \<and>
   (case g_poll_kqueue model_sys [g_wakeup_get_pollfd_kq 5 blank_fd] 0
           ((g_wakeup_signal_kq model_sys 5 ^^ (2 ^ 32)) fresh_kq_world) of
      (r, ps, w) \<Rightarrow> r = 0 \<and> revents (ps ! 0) = 0)"
proof -
  have wrap: "(g_wakeup_signal_kq model_sys 5 ^^ (2 ^ 32)) fresh_kq_world = fresh_kq_world"
    by (rule signal_kq_wraps) simp
  show ?thesis
    unfolding wrap kq_poll_signalled_once kq_poll_unsignalled
    by (simp add: g_wakeup_get_pollfd_kq_def blank_fd_def)
qed

lemma max_32: "(of_nat (2 ^ 32 - 1) :: 32 word) = - 1"
  by simp

text \<open>
  C9 fails at the wrap of the counter: a handle that has been signalled \<open>2^32 - 1\<close> times
  with no acknowledge has \<open>pending = 0xFFFFFFFF\<close> and is realized into no queue; the next
  signal, issued before the poll call registers the handle, increments \<open>pending\<close> to 0, the
  realization re-issues no trigger, and the poll call reports nothing.
\<close>

theorem g_wakeup_signal_kq_lost_before_poll:
  "pending (kq_wakeups ((g_wakeup_signal_kq model_sys 5 ^^ (2 ^ 32 - 1)) fresh_kq_world) 5) =
     0xFFFFFFFF \<and>
   kq (kq_wakeups ((g_wakeup_signal_kq model_sys 5 ^^ (2 ^ 32 - 1)) fresh_kq_world) 5) = - 1 \<and>
   (case g_poll_kqueue model_sys [g_wakeup_get_pollfd_kq 5 blank_fd] 0
           (g_wakeup_signal_kq model_sys 5
              ((g_wakeup_signal_kq model_sys 5 ^^ (2 ^ 32 - 1)) fresh_kq_world)) of
      (r, ps, w) \<Rightarrow> r = 0 \<and> revents (ps ! 0) = 0)"
proof -
  let ?w = "(g_wakeup_signal_kq model_sys 5 ^^ (2 ^ 32 - 1)) fresh_kq_world"
  have w: "?w = fresh_kq_world\<lparr>kq_wakeups := (kq_wakeups fresh_kq_world)
                  (5 := (kq_wakeups fresh_kq_world 5)\<lparr>pending := - 1\<rparr>)\<rparr>"
    by (simp only: signal_kq_funpow [OF kq_fresh] max_32) (simp add: fresh_kq_world_def)
  have p: "pending (kq_wakeups ?w 5) = 0xFFFFFFFF" and k: "kq (kq_wakeups ?w 5) = - 1"
    unfolding w by simp_all
  have s: "g_wakeup_signal_kq model_sys 5 ?w = fresh_kq_world"
    unfolding signal_kq_unrealized [OF k] unfolding w
    by (simp add: fresh_kq_world_def fun_upd_idem_iff)
  have "case g_poll_kqueue model_sys [g_wakeup_get_pollfd_kq 5 blank_fd] 0
           (g_wakeup_signal_kq model_sys 5 ?w) of
      (r, ps, w) \<Rightarrow> r = 0 \<and> revents (ps ! 0) = 0"
    unfolding s kq_poll_unsignalled by (simp add: g_wakeup_get_pollfd_kq_def blank_fd_def)
  with p k show ?thesis by blast
qed

text \<open>General facts about the recount of the kqueue build, for any kernel.\<close>

lemma foldl_process_event_Nil [simp]: "foldl process_event fds [] = fds"
  by simp

lemma kq_results_count:
  assumes "kq_results fds m res = (r, fds')" "0 \<le> r"
  shows "r = int (length (filter (\<lambda>f. revents f \<noteq> 0) fds'))"
proof (cases res)
  case None
  with assms show ?thesis by (simp add: kq_results_def)
next
  case (Some evs)
  show ?thesis
  proof (cases "take m evs = []")
    case True
    with assms Some show ?thesis
      by (auto simp: kq_results_def Let_def filter_empty_conv)
  next
    case False
    with assms Some show ?thesis
      by (auto simp: kq_results_def Let_def)
  qed
qed

lemma g_poll_kqueue_count:
  assumes "g_poll_kqueue sys fds timeout w = (r, fds', w')" "0 \<le> r"
  shows "r = int (length (filter (\<lambda>f. revents f \<noteq> 0) fds'))"
  using assms
  by (auto simp: g_poll_kqueue_def Let_def split: prod.splits if_splits option.splits
        dest: kq_results_count)

lemma g_poll_kqueue_timeout_clears:
  assumes "g_poll_kqueue sys fds timeout w = (0, fds', w')"
  shows "\<forall>f \<in> set fds'. revents f = 0"
proof -
  from g_poll_kqueue_count [OF assms] have "filter (\<lambda>f. revents f \<noteq> 0) fds' = []" by simp
  then show ?thesis by (simp add: filter_empty_conv)
qed

section \<open>Properties of the handle-wait backend\<close>

lemma waits_update_ref [simp]: "waits (update_ref r g st) = waits st"
  by (cases r) simp_all

lemma same_requests_refl [simp]: "same_requests xs xs"
  by (simp add: same_requests_def)

lemma same_requests_trans: "same_requests xs ys \<Longrightarrow> same_requests ys zs \<Longrightarrow> same_requests xs zs"
  by (simp add: same_requests_def)


lemma same_requests_update:
  assumes "\<And>f. g f\<lparr>revents := 0\<rparr> = f\<lparr>revents := 0\<rparr>"
  shows "same_requests (xs[i := g (xs ! i)]) xs"
proof (cases "i < length xs")
  case True
  then show ?thesis
    unfolding same_requests_def
    by (simp add: map_update assms list_update_same_conv)
next
  case False
  then show ?thesis by (simp add: list_update_beyond)
qed

lemma same_requests_update_ref:
  assumes "\<And>f. g f\<lparr>revents := 0\<rparr> = f\<lparr>revents := 0\<rparr>"
  shows "same_requests (polled (update_ref r g st)) (polled st)"
  using same_requests_update [of g, OF assms] by (cases r) simp_all

lemma wait_objects_le: "n \<in> set (wait_objects msg hs t) \<Longrightarrow> n \<le> max 1 (length hs)"
  by (auto simp: wait_objects_def split: if_splits)

text \<open>The branches of \<open>poll_rest\<close>, one equation each.\<close>

lemma poll_rest_failed:
  assumes a: "native_wait env msg (map fst sl) t = WAIT_FAILED"
  shows "poll_rest env msg stop sl t st =
           (- 1, st\<lparr>waits := waits st @ wait_objects msg (map fst sl) t\<rparr>)"
  by (subst poll_rest.simps, unfold Let_def, subst if_P [OF a], rule refl)

lemma poll_rest_timeout:
  assumes a: "native_wait env msg (map fst sl) t \<noteq> WAIT_FAILED"
    and b: "native_wait env msg (map fst sl) t = WAIT_TIMEOUT \<or>
         native_wait env msg (map fst sl) t = WAIT_IO_COMPLETION"
  shows "poll_rest env msg stop sl t st =
           (0, st\<lparr>waits := waits st @ wait_objects msg (map fst sl) t\<rparr>)"
  by (subst poll_rest.simps, unfold Let_def, subst if_not_P [OF a], subst if_P [OF b], rule refl)

lemma poll_rest_message:
  assumes a: "native_wait env msg (map fst sl) t \<noteq> WAIT_FAILED"
    and b: "\<not> (native_wait env msg (map fst sl) t = WAIT_TIMEOUT \<or>
            native_wait env msg (map fst sl) t = WAIT_IO_COMPLETION)"
    and c: "msg \<noteq> None \<and> native_wait env msg (map fst sl) t = WAIT_OBJECT_0 + of_nat (length sl)"
  shows "poll_rest env msg stop sl t st =
     (let st2 = (case msg of None \<Rightarrow> st\<lparr>waits := waits st @ wait_objects msg (map fst sl) t\<rparr>
                 | Some m \<Rightarrow> update_ref m (\<lambda>f. f\<lparr>revents := revents f OR G_IO_IN\<rparr>)
                              (st\<lparr>waits := waits st @ wait_objects msg (map fst sl) t\<rparr>))
      in if t \<noteq> 0 \<or> length sl = 0 then (1, st2)
         else (case poll_rest env None stop sl 0 st2 of
                 (recursed_result, st3) \<Rightarrow>
                   (if recursed_result = - 1 then - 1 else 1 + recursed_result, st3)))"
  by (subst poll_rest.simps, unfold Let_def, subst if_not_P [OF a], subst if_not_P [OF b],
      subst if_P [OF c], rule refl)

lemma poll_rest_object:
  assumes a: "native_wait env msg (map fst sl) t \<noteq> WAIT_FAILED"
    and b: "\<not> (native_wait env msg (map fst sl) t = WAIT_TIMEOUT \<or>
            native_wait env msg (map fst sl) t = WAIT_IO_COMPLETION)"
    and c: "\<not> (msg \<noteq> None \<and>
            native_wait env msg (map fst sl) t = WAIT_OBJECT_0 + of_nat (length sl))"
    and d: "native_wait env msg (map fst sl) t < WAIT_OBJECT_0 + of_nat (length sl)"
  shows "poll_rest env msg stop sl t st =
     (let k = unat (native_wait env msg (map fst sl) t - WAIT_OBJECT_0);
          f = snd (sl ! k);
          st2 = update_ref f (\<lambda>f. f\<lparr>revents := events f\<rparr>)
                  (st\<lparr>waits := waits st @ wait_objects msg (map fst sl) t\<rparr>);
          retval = (if Some f \<noteq> stop then 1 else 0)
      in if t = 0 \<and> length sl > 1
         then (case poll_rest env None stop (drop (k + 1) sl) 0 st2 of
                 (recursed_result, st3) \<Rightarrow>
                   (if recursed_result = - 1 then - 1 else retval + recursed_result, st3))
         else (retval, st2))"
  by (subst poll_rest.simps, unfold Let_def, subst if_not_P [OF a], subst if_not_P [OF b],
      subst if_not_P [OF c], subst if_P [OF d], rule refl)

lemma poll_rest_other:
  assumes a: "native_wait env msg (map fst sl) t \<noteq> WAIT_FAILED"
    and b: "\<not> (native_wait env msg (map fst sl) t = WAIT_TIMEOUT \<or>
            native_wait env msg (map fst sl) t = WAIT_IO_COMPLETION)"
    and c: "\<not> (msg \<noteq> None \<and>
            native_wait env msg (map fst sl) t = WAIT_OBJECT_0 + of_nat (length sl))"
    and d: "\<not> native_wait env msg (map fst sl) t < WAIT_OBJECT_0 + of_nat (length sl)"
  shows "poll_rest env msg stop sl t st =
           (0, st\<lparr>waits := waits st @ wait_objects msg (map fst sl) t\<rparr>)"
  by (subst poll_rest.simps, unfold Let_def, subst if_not_P [OF a], subst if_not_P [OF b],
      subst if_not_P [OF c], subst if_not_P [OF d], rule refl)

text \<open>What \<open>poll_rest\<close> may do to the memory: issue waits on no more objects than it has
  slots (or on one), and write result fields.\<close>

lemma poll_rest_frame:
  "set (waits (snd (poll_rest env msg stop sl t st))) \<subseteq>
     set (waits st) \<union> {n. n \<le> max 1 (length sl)} \<and>
   same_requests (polled (snd (poll_rest env msg stop sl t st))) (polled st)"
proof (induction env msg stop sl t st rule: poll_rest.induct)
  case (1 env msg stop sl t st)
  let ?P = "\<lambda>s. set (waits s) \<subseteq> set (waits st) \<union> {n. n \<le> max 1 (length sl)} \<and>
                 same_requests (polled s) (polled st)"
  let ?ready = "native_wait env msg (map fst sl) t"
  let ?st1 = "st\<lparr>waits := waits st @ wait_objects msg (map fst sl) t\<rparr>"
  have st1: "?P ?st1"
    using wait_objects_le [of _ msg "map fst sl" t] by auto
  show ?case
  proof (cases "?ready = WAIT_FAILED")
    case True
    from poll_rest_failed [OF True] st1 show ?thesis by simp
  next
    case a: False
    show ?thesis
    proof (cases "?ready = WAIT_TIMEOUT \<or> ?ready = WAIT_IO_COMPLETION")
      case True
      from poll_rest_timeout [OF a True] st1 show ?thesis by simp
    next
      case b: False
      show ?thesis
      proof (cases "msg \<noteq> None \<and> ?ready = WAIT_OBJECT_0 + of_nat (length sl)")
        case c: True
        let ?st2 = "case msg of None \<Rightarrow> ?st1
                    | Some m \<Rightarrow> update_ref m (\<lambda>f. f\<lparr>revents := revents f OR G_IO_IN\<rparr>) ?st1"
        have "same_requests (polled ?st2) (polled ?st1)"
        proof (cases msg)
          case None
          then show ?thesis by simp
        next
          case (Some m)
          have "same_requests
                  (polled (update_ref m (\<lambda>f. f\<lparr>revents := revents f OR G_IO_IN\<rparr>) ?st1))
                  (polled ?st1)"
            by (rule same_requests_update_ref) simp
          with Some show ?thesis by simp
        qed
        moreover have "waits ?st2 = waits ?st1" by (simp split: option.splits)
        ultimately have st2: "?P ?st2" using st1 by (auto intro: same_requests_trans)
        show ?thesis
        proof (cases "t \<noteq> 0 \<or> length sl = 0")
          case True
          have "snd (poll_rest env msg stop sl t st) = ?st2"
            by (subst poll_rest_message [OF a b c], unfold Let_def, subst if_P [OF True],
                simp only: snd_conv)
          with st2 show ?thesis by simp
        next
          case False
          let ?s3 = "snd (poll_rest env None stop sl 0 ?st2)"
          have ih: "set (waits ?s3) \<subseteq> set (waits ?st2) \<union> {n. n \<le> max 1 (length sl)} \<and>
                    same_requests (polled ?s3) (polled ?st2)"
            using "1.IH"(1) [OF refl refl a b c refl False] .
          have "snd (poll_rest env msg stop sl t st) = ?s3"
            by (subst poll_rest_message [OF a b c], unfold Let_def, subst if_not_P [OF False],
                simp only: case_prod_beta snd_conv)
          with ih st2 show ?thesis by (auto intro: same_requests_trans)
        qed
      next
        case c: False
        show ?thesis
        proof (cases "?ready < WAIT_OBJECT_0 + of_nat (length sl)")
          case d: True
          let ?k = "unat (?ready - WAIT_OBJECT_0)"
          let ?f = "snd (sl ! ?k)"
          let ?st2 = "update_ref ?f (\<lambda>f. f\<lparr>revents := events f\<rparr>) ?st1"
          have "same_requests (polled ?st2) (polled ?st1)"
            by (rule same_requests_update_ref) simp
          then have st2: "?P ?st2" using st1 by (auto intro: same_requests_trans)
          show ?thesis
          proof (cases "t = 0 \<and> length sl > 1")
            case rec: True
            let ?s3 = "snd (poll_rest env None stop (drop (?k + 1) sl) 0 ?st2)"
            have ih: "set (waits ?s3) \<subseteq>
                        set (waits ?st2) \<union> {n. n \<le> max 1 (length (drop (?k + 1) sl))} \<and>
                      same_requests (polled ?s3) (polled ?st2)"
              using "1.IH"(2) [OF refl refl a b c d refl refl refl refl rec] .
            have "snd (poll_rest env msg stop sl t st) = ?s3"
              by (subst poll_rest_object [OF a b c d], unfold Let_def, subst if_P [OF rec],
                  simp only: case_prod_beta snd_conv)
            with ih st2 show ?thesis by (auto intro: same_requests_trans)
          next
            case False
            have "snd (poll_rest env msg stop sl t st) = ?st2"
              by (subst poll_rest_object [OF a b c d], unfold Let_def, subst if_not_P [OF False],
                  simp only: snd_conv)
            with st2 show ?thesis by simp
          qed
        next
          case d: False
          from poll_rest_other [OF a b c d] st1 show ?thesis by simp
        qed
      qed
    qed
  qed
qed

lemma poll_single_thread_frame:
  "set (waits (snd (poll_single_thread env d st))) \<subseteq>
     set (waits st) \<union> {n. n \<le> max 1 (nhandles d)} \<and>
   same_requests (polled (snd (poll_single_thread env d st))) (polled st)"
proof -
  let ?M = "{n. n \<le> max 1 (nhandles d)}"
  have one: "set (waits (snd (poll_rest env (msg_fd d) (stop_fd d) (slots d) t s))) \<subseteq>
               set (waits s) \<union> ?M \<and>
             same_requests (polled (snd (poll_rest env (msg_fd d) (stop_fd d) (slots d) t s)))
               (polled s)" for t s
    using poll_rest_frame [of env "msg_fd d" "stop_fd d" "slots d" t s]
    by (simp add: nhandles_def)
  obtain r s1 where first: "poll_rest env (msg_fd d) (stop_fd d) (slots d) 0 st = (r, s1)"
    by (cases "poll_rest env (msg_fd d) (stop_fd d) (slots d) 0 st")
  have s1: "set (waits s1) \<subseteq> set (waits st) \<union> ?M \<and> same_requests (polled s1) (polled st)"
    using one [of 0 st] first by simp
  have two: "set (waits (snd (poll_rest env (msg_fd d) (stop_fd d) (slots d) (timeout_ms d) s1)))
               \<subseteq> set (waits st) \<union> ?M \<and>
             same_requests
               (polled (snd (poll_rest env (msg_fd d) (stop_fd d) (slots d) (timeout_ms d) s1)))
               (polled st)"
    using one [of "timeout_ms d" s1] s1 by (auto intro: same_requests_trans)
  show ?thesis
  proof (cases "nhandles d > 1 \<or> (nhandles d > 0 \<and> msg_fd d \<noteq> None)")
    case several: True
    show ?thesis
    proof (cases "r = 0 \<and> (timeout_ms d = INFINITE \<or> timeout_ms d > 0)")
      case True
      then have "poll_single_thread env d st =
                 poll_rest env (msg_fd d) (stop_fd d) (slots d) (timeout_ms d) s1"
        unfolding poll_single_thread_def if_P [OF several] first by simp
      with two show ?thesis by simp
    next
      case False
      then have "poll_single_thread env d st = (r, s1)"
        unfolding poll_single_thread_def if_P [OF several] first by auto
      with s1 show ?thesis by simp
    qed
  next
    case False
    then have "poll_single_thread env d st =
               poll_rest env (msg_fd d) (stop_fd d) (slots d) (timeout_ms d) st"
      unfolding poll_single_thread_def by (simp only: if_False)
    with one [of "timeout_ms d" st] show ?thesis by simp
  qed
qed

lemma fill_loop_frame:
  "fill_loop is d st = (d', st') \<Longrightarrow>
     waits st' = waits st \<and> stop_event st' = stop_event st \<and>
     same_requests (polled st') (polled st) \<and>
     stop_fd d' = stop_fd d \<and> timeout_ms d' = timeout_ms d \<and>
     (\<exists>xs. slots d' = slots d @ xs \<and> length xs \<le> length is) \<and>
     (nhandles d \<le> MAXIMUM_WAIT_OBJECTS \<longrightarrow> nhandles d' \<le> MAXIMUM_WAIT_OBJECTS)"
proof (induction "is" arbitrary: d st)
  case Nil
  then show ?case by simp
next
  case (Cons i "is")
  show ?case
  proof (cases "nhandles d = MAXIMUM_WAIT_OBJECTS \<or>
                (msg_fd d \<noteq> None \<and> nhandles d = MAXIMUM_WAIT_OBJECTS - 1)")
    case True
    with Cons.prems show ?thesis by simp
  next
    case False
    let ?f = "polled st ! i"
    let ?d1 = "if fd ?f = G_WIN32_MSG_HANDLE \<and> events ?f AND G_IO_IN \<noteq> 0
               then d\<lparr>msg_fd := Some (FdRef i)\<rparr>
               else if fd ?f > 0 then d\<lparr>slots := slots d @ [(fd ?f, FdRef i)]\<rparr> else d"
    let ?s1 = "update_ref (FdRef i) (\<lambda>f. f\<lparr>revents := 0\<rparr>) st"
    have step: "fill_loop (i # is) d st = fill_loop is ?d1 ?s1"
      by (subst fill_loop.simps, subst if_not_P [OF False], unfold Let_def, rule refl)
    have rec: "fill_loop is ?d1 ?s1 = (d', st')"
      using Cons.prems unfolding step .
    note ih = Cons.IH [OF rec]
    have sr: "same_requests (polled ?s1) (polled st)"
      by (rule same_requests_update_ref) simp
    have d1: "stop_fd ?d1 = stop_fd d" "timeout_ms ?d1 = timeout_ms d"
      "\<exists>ys. slots ?d1 = slots d @ ys \<and> length ys \<le> 1"
      by auto
    have bound: "nhandles d \<le> MAXIMUM_WAIT_OBJECTS \<longrightarrow> nhandles ?d1 \<le> MAXIMUM_WAIT_OBJECTS"
      using False by (auto simp: nhandles_def)
    from d1(3) obtain ys where ys: "slots ?d1 = slots d @ ys" "length ys \<le> 1" by blast
    from ih obtain xs where xs: "slots d' = slots ?d1 @ xs" "length xs \<le> length is" by blast
    have "slots d' = slots d @ (ys @ xs) \<and> length (ys @ xs) \<le> length (i # is)"
      using ys xs by simp
    then have ex: "\<exists>zs. slots d' = slots d @ zs \<and> length zs \<le> length (i # is)" by blast
    from ih sr d1(1,2) bound ex show ?thesis
      by (auto intro: same_requests_trans)
  qed
qed

lemma fill_poll_thread_data_stop:
  assumes "fill_poll_thread_data off n t (Some StopRef) zero_data st = (d, st')"
  shows "waits st' = waits st \<and> stop_event st' = stop_event st \<and>
         same_requests (polled st') (polled st) \<and>
         stop_fd d = Some StopRef \<and> slots d \<noteq> [] \<and> snd (hd (slots d)) = StopRef \<and>
         nhandles d \<le> Suc n \<and> nhandles d \<le> MAXIMUM_WAIT_OBJECTS"
proof -
  let ?d1 = "zero_data\<lparr>timeout_ms := t, stop_fd := Some StopRef,
                        slots := slots (zero_data\<lparr>timeout_ms := t\<rparr>) @ [(fd (deref st StopRef), StopRef)]\<rparr>"
  from assms have "fill_loop [off ..< off + n] ?d1 st = (d, st')"
    by (simp add: fill_poll_thread_data_def Let_def)
  note fr = fill_loop_frame [OF this]
  have d1: "slots ?d1 = [(fd (stop_event st), StopRef)]" "nhandles ?d1 \<le> MAXIMUM_WAIT_OBJECTS"
    by (simp_all add: zero_data_def nhandles_def MAXIMUM_WAIT_OBJECTS_def)
  from fr obtain xs where xs: "slots d = slots ?d1 @ xs" "length xs \<le> n" by auto
  from fr d1 xs show ?thesis
    by (auto simp: nhandles_def)
qed


lemma spawn_loop_frame:
  "spawn_loop nt tr t is idx msg st = (ds, gs, msg', st') \<Longrightarrow>
     length ds = length is \<and>
     gs = groups_from idx
            (map (\<lambda>i. if i = nt - 1 \<and> tr > 0 then tr else MAXIMUM_WAIT_OBJECTS_PER_THREAD) is) \<and>
     waits st' = waits st \<and> stop_event st' = stop_event st \<and>
     same_requests (polled st') (polled st) \<and>
     (\<forall>d \<in> set ds. slots d \<noteq> [] \<and> snd (hd (slots d)) = StopRef \<and>
                     nhandles d \<le> MAXIMUM_WAIT_OBJECTS \<and> msg_fd d = None)"
proof (induction "is" arbitrary: idx msg st ds gs msg' st')
  case Nil
  then show ?case by simp
next
  case (Cons i "is")
  let ?n = "if i = nt - 1 \<and> tr > 0 then tr else MAXIMUM_WAIT_OBJECTS_PER_THREAD"
  obtain d st1 where fill: "fill_poll_thread_data idx ?n t (Some StopRef) zero_data st = (d, st1)"
    by (cases "fill_poll_thread_data idx ?n t (Some StopRef) zero_data st")
  let ?msg = "if msg_fd d \<noteq> None then msg_fd d else msg"
  obtain ds0 gs0 m0 st2 where rec: "spawn_loop nt tr t is (idx + ?n) ?msg st1 = (ds0, gs0, m0, st2)"
    by (cases "spawn_loop nt tr t is (idx + ?n) ?msg st1") auto
  let ?d = "if msg_fd d \<noteq> None then d\<lparr>msg_fd := None\<rparr> else d"
  have "spawn_loop nt tr t (i # is) idx msg st = (?d # ds0, (idx, ?n) # gs0, m0, st2)"
    unfolding spawn_loop.simps Let_def fill prod.case rec ..
  with Cons.prems have res: "ds = ?d # ds0" "gs = (idx, ?n) # gs0" "msg' = m0" "st' = st2"
    by simp_all
  note f = fill_poll_thread_data_stop [OF fill]
  note ih = Cons.IH [OF rec]
  have dok: "slots ?d \<noteq> [] \<and> snd (hd (slots ?d)) = StopRef \<and>
             nhandles ?d \<le> MAXIMUM_WAIT_OBJECTS \<and> msg_fd ?d = None"
    using f by (auto simp: nhandles_def)
  from ih f dok show ?case
    unfolding res by (auto intro: same_requests_trans)
qed

lemma run_workers_frame:
  "run_workers env ds st = (codes, st') \<Longrightarrow>
     length codes = length ds \<and>
     same_requests (polled st') (polled st) \<and>
     ((\<forall>d \<in> set ds. nhandles d \<le> MAXIMUM_WAIT_OBJECTS) \<longrightarrow>
        set (waits st') \<subseteq> set (waits st) \<union> {n. n \<le> MAXIMUM_WAIT_OBJECTS})"
proof (induction ds arbitrary: st codes st')
  case Nil
  then show ?case by simp
next
  case (Cons d ds)
  obtain r st1 where one: "poll_single_thread env d st = (r, st1)"
    by (cases "poll_single_thread env d st")
  obtain cs st2 where rec: "run_workers env ds st1 = (cs, st2)"
    by (cases "run_workers env ds st1")
  from Cons.prems have res: "codes = word_of_int r # cs" "st' = st2"
    by (simp_all add: one rec)
  note ih = Cons.IH [OF rec]
  have fr: "set (waits st1) \<subseteq> set (waits st) \<union> {n. n \<le> max 1 (nhandles d)}"
    "same_requests (polled st1) (polled st)"
    using poll_single_thread_frame [of env d st] one by simp_all
  have "set (waits st1) \<subseteq> set (waits st) \<union> {n. n \<le> MAXIMUM_WAIT_OBJECTS}"
    if "nhandles d \<le> MAXIMUM_WAIT_OBJECTS"
    using fr(1) that by (auto simp: MAXIMUM_WAIT_OBJECTS_def)
  with ih fr(2) show ?case
    unfolding res by (auto intro: same_requests_trans)
qed

lemma collect_exit_codes_sticky: "collect_exit_codes env is codes (- 1) = - 1"
  by (induction "is") simp_all

lemma collect_exit_codes_error:
  "i \<in> set is \<Longrightarrow> GetExitCodeThread env i \<Longrightarrow> codes ! i = - 1 \<Longrightarrow>
   collect_exit_codes env is codes retval = - 1"
proof (induction "is" arbitrary: retval)
  case Nil
  then show ?case by simp
next
  case (Cons j js)
  show ?case
  proof (cases "j = i")
    case True
    with Cons.prems show ?thesis by (simp add: collect_exit_codes_sticky)
  next
    case False
    with Cons.prems have "i \<in> set js" by simp
    from Cons.IH [OF this Cons.prems(2,3)] show ?thesis by simp
  qed
qed

text \<open>Arithmetic of the groups.\<close>

lemma groups_from_length [simp]: "length (groups_from off ns) = length ns"
  by (induction ns arbitrary: off) simp_all

lemma groups_from_snd [simp]: "map snd (groups_from off ns) = ns"
  by (induction ns arbitrary: off) simp_all

lemma groups_from_mem:
  "(a, n) \<in> set (groups_from off ns) \<Longrightarrow> n \<in> set ns \<and> off \<le> a \<and> a + n \<le> off + sum_list ns"
proof (induction ns arbitrary: off)
  case Nil
  then show ?case by simp
next
  case (Cons m ns)
  then show ?case by fastforce
qed

lemma groups_from_slices:
  "concat (map (\<lambda>(a, n). take n (drop a xs)) (groups_from off ns)) =
     take (sum_list ns) (drop off xs)"
proof (induction ns arbitrary: off)
  case Nil
  then show ?case by simp
next
  case (Cons m ns)
  have "take (m + sum_list ns) (drop off xs) =
        take m (drop off xs) @ take (sum_list ns) (drop (off + m) xs)"
    by (simp add: take_add add.commute)
  with Cons show ?case by simp
qed

lemma thread_sizes:
  assumes "0 < nt"
  shows "map (\<lambda>i. if i = nt - 1 \<and> 0 < tr then tr else m) [0 ..< nt] =
           replicate (nt - 1) m @ [if 0 < tr then tr else m]"
proof -
  have "[0 ..< nt] = [0 ..< nt - 1] @ [nt - 1]"
    using assms by (metis Suc_pred' upt_Suc_append zero_le)
  moreover have "map (\<lambda>i. if i = nt - 1 \<and> 0 < tr then tr else m) [0 ..< nt - 1] =
                 replicate (nt - 1) m"
    by (simp add: list_eq_iff_nth_eq)
  ultimately show ?thesis by simp
qed

lemma same_requests_zeroed: "same_requests (map (\<lambda>f. f\<lparr>revents := 0\<rparr>) xs) xs"
  by (simp add: same_requests_def)

lemma ceil_63: "((N::nat) + 62) div 63 = N div 63 + (if 0 < N mod 63 then 1 else 0)"
proof -
  define q where "q = N div 63"
  define r where "r = N mod 63"
  have N: "N = r + q * 63" and r: "r < 63" by (simp_all add: q_def r_def)
  have "(N + 62) div 63 = ((r + 62) + q * 63) div 63" by (simp add: N)
  also have "\<dots> = q + (r + 62) div 63" by (rule div_mult_self1) simp
  also have "(r + 62) div 63 = (if 0 < r then 1 else 0)"
  proof (cases "0 < r")
    case True
    then have "(r + 62) div 63 = 1" using r by (intro div_nat_eqI) simp_all
    with True show ?thesis by simp
  next
    case False
    then show ?thesis by simp
  qed
  finally show ?thesis unfolding q_def r_def .
qed

lemma nthreads_ceiling:
  "n div MAXIMUM_WAIT_OBJECTS_PER_THREAD +
     (if n mod MAXIMUM_WAIT_OBJECTS_PER_THREAD > 0 then 1 else 0) =
   (n + MAXIMUM_WAIT_OBJECTS_PER_THREAD - 1) div MAXIMUM_WAIT_OBJECTS_PER_THREAD"
proof -
  have per: "MAXIMUM_WAIT_OBJECTS_PER_THREAD = 63"
    by (simp add: MAXIMUM_WAIT_OBJECTS_PER_THREAD_def MAXIMUM_WAIT_OBJECTS_def)
  show ?thesis unfolding per using ceil_63 [of n] by simp
qed

lemma sint_minus_one_iff: "sint (x :: 32 word) = - 1 \<longleftrightarrow> x = - 1"
  by (metis signed_minus_1 signed_word_eqI)

lemma run_workers_codes:
  "run_workers env ds st = (codes, st') \<Longrightarrow> i < length ds \<Longrightarrow>
   \<exists>s. codes ! i = word_of_int (fst (poll_single_thread env (ds ! i) s))"
proof (induction ds arbitrary: st codes st' i)
  case Nil
  then show ?case by simp
next
  case (Cons d ds)
  obtain r st1 where one: "poll_single_thread env d st = (r, st1)"
    by (cases "poll_single_thread env d st")
  obtain cs st2 where rec: "run_workers env ds st1 = (cs, st2)"
    by (cases "run_workers env ds st1")
  from Cons.prems(1) have res: "codes = word_of_int r # cs"
    by (simp add: one rec)
  show ?case
  proof (cases i)
    case 0
    have "codes ! 0 = word_of_int (fst (poll_single_thread env d st))"
      by (simp add: res one)
    with 0 show ?thesis by auto
  next
    case (Suc j)
    with Cons.prems(2) have "j < length ds" by simp
    from Cons.IH [OF rec this] Suc show ?thesis by (simp add: res)
  qed
qed

text \<open>The call on a set above the ceiling.\<close>

lemma g_poll_win32_threaded:
  fixes env :: win_env and fds :: "GPollFD list" and timeout :: int
  assumes big: "MAXIMUM_WAIT_OBJECTS < length fds"
  defines "R \<equiv> g_poll_win32 env fds timeout"
    and "nt \<equiv> min ((length fds + MAXIMUM_WAIT_OBJECTS_PER_THREAD - 1) div
                      MAXIMUM_WAIT_OBJECTS_PER_THREAD) MAXIMUM_WAIT_OBJECTS_PER_THREAD"
  shows "length (workers R) = nt"
    and "groups R = groups_from 0
           (map (\<lambda>i. if i = nt - 1 \<and> length fds mod MAXIMUM_WAIT_OBJECTS_PER_THREAD > 0
                      then length fds mod MAXIMUM_WAIT_OBJECTS_PER_THREAD
                      else MAXIMUM_WAIT_OBJECTS_PER_THREAD) [0 ..< nt])"
    and "\<forall>d \<in> set (workers R). slots d \<noteq> [] \<and> snd (hd (slots d)) = StopRef \<and>
                                  nhandles d \<le> MAXIMUM_WAIT_OBJECTS \<and> msg_fd d = None"
    and "set (native_waits R) \<subseteq> {n. n \<le> MAXIMUM_WAIT_OBJECTS}"
    and "same_requests (out_fds R) fds"
    and "length (exit_codes R) = length (workers R)"
    and "(\<exists>i < length (workers R). GetExitCodeThread env i \<and> exit_codes R ! i = - 1) \<longrightarrow>
         ret R = - 1"
    and "ret R = - 1 \<longrightarrow> (\<forall>f \<in> set (out_fds R). revents f = 0)"
    and "\<forall>i < length (workers R).
           \<exists>s. exit_codes R ! i = word_of_int (fst (poll_single_thread env (workers R ! i) s))"
proof -
  define t where "t = (if timeout = - 1 then INFINITE else word_of_int timeout)"
  define tr where "tr = length fds mod MAXIMUM_WAIT_OBJECTS_PER_THREAD"
  define nt0 where "nt0 = length fds div MAXIMUM_WAIT_OBJECTS_PER_THREAD + (if tr > 0 then 1 else 0)"
  define nt' where
    "nt' = (if nt0 > MAXIMUM_WAIT_OBJECTS_PER_THREAD then MAXIMUM_WAIT_OBJECTS_PER_THREAD else nt0)"
  define st1 where
    "st1 = \<lparr>polled = fds, stop_event = blank_fd, waits = []\<rparr>
             \<lparr>stop_event := blank_fd\<lparr>fd := CreateEventW env, events := G_IO_IN\<rparr>\<rparr>"
  obtain ds gs msg st2 where sp: "spawn_loop nt' tr t [0 ..< nt'] 0 None st1 = (ds, gs, msg, st2)"
    by (metis prod_cases4)
  obtain codes st3 where rw: "run_workers env ds st2 = (codes, st3)"
    by (cases "run_workers env ds st2")
  define st4 where "st4 = st3\<lparr>waits := waits st3 @ [nt', nt']\<rparr>"
  define got where
    "got \<longleftrightarrow> msg \<noteq> None \<and> WaitForThreads env (msg \<noteq> None) nt' t = WAIT_OBJECT_0 + of_nat nt'"
  define st5 where
    "st5 = (case msg of
              Some m \<Rightarrow> if got then update_ref m (\<lambda>f. f\<lparr>revents := revents f OR G_IO_IN\<rparr>) st4
                        else st4
            | None \<Rightarrow> st4)"
  define retval where "retval = collect_exit_codes env [0 ..< nt'] codes (if got then 1 else 0)"
  have nb: "\<not> length fds \<le> MAXIMUM_WAIT_OBJECTS" using big by simp
  have eq: "R =
       \<lparr>ret = sint retval,
        out_fds = (if retval = - 1 then map (\<lambda>f. f\<lparr>revents := 0\<rparr>) (polled st5) else polled st5),
        native_waits = waits st5, workers = ds, groups = gs, exit_codes = codes\<rparr>"
    unfolding R_def
    apply (subst g_poll_win32_def)
    apply (unfold Let_def)
    apply (subst if_not_P [OF nb])
    apply (fold t_def tr_def)
    apply (fold nt0_def)
    apply (fold nt'_def)
    apply (fold st1_def)
    apply (subst sp)
    apply (unfold prod.case)
    apply (subst rw)
    apply (unfold prod.case)
    apply (fold st4_def got_def)
    apply (fold st5_def retval_def)
    apply (rule refl)
    done
  have nt: "nt' = nt"
    unfolding nt'_def nt0_def tr_def nthreads_ceiling nt_def by (simp add: min_def)
  have w5: "waits st5 = waits st3 @ [nt', nt']"
    by (simp add: st5_def st4_def split: option.splits)
  have "same_requests (polled st5) (polled st4)"
  proof (cases msg)
    case None
    then show ?thesis by (simp add: st5_def)
  next
    case (Some m)
    have "same_requests
            (polled (update_ref m (\<lambda>f. f\<lparr>revents := revents f OR G_IO_IN\<rparr>) st4)) (polled st4)"
      by (rule same_requests_update_ref) simp
    with Some show ?thesis by (cases got) (simp_all add: st5_def)
  qed
  then have p5: "same_requests (polled st5) (polled st3)" by (simp add: st4_def)
  note sf = spawn_loop_frame [OF sp]
  note rf = run_workers_frame [OF rw]
  from sf have len: "length ds = nt'" by simp
  show "length (workers R) = nt"
    unfolding eq using len nt by simp
  show "groups R = groups_from 0
           (map (\<lambda>i. if i = nt - 1 \<and> length fds mod MAXIMUM_WAIT_OBJECTS_PER_THREAD > 0
                      then length fds mod MAXIMUM_WAIT_OBJECTS_PER_THREAD
                      else MAXIMUM_WAIT_OBJECTS_PER_THREAD) [0 ..< nt])"
    unfolding eq using sf unfolding nt tr_def by simp
  from sf show "\<forall>d \<in> set (workers R). slots d \<noteq> [] \<and> snd (hd (slots d)) = StopRef \<and>
                                  nhandles d \<le> MAXIMUM_WAIT_OBJECTS \<and> msg_fd d = None"
    unfolding eq by simp
  have "waits st2 = []" using sf by (simp add: st1_def)
  moreover have "\<forall>d \<in> set ds. nhandles d \<le> MAXIMUM_WAIT_OBJECTS" using sf by blast
  ultimately have "set (waits st3) \<subseteq> {n. n \<le> MAXIMUM_WAIT_OBJECTS}" using rf by auto
  moreover have "nt \<le> MAXIMUM_WAIT_OBJECTS"
    unfolding nt_def MAXIMUM_WAIT_OBJECTS_PER_THREAD_def by simp
  ultimately show "set (native_waits R) \<subseteq> {n. n \<le> MAXIMUM_WAIT_OBJECTS}"
    unfolding eq using w5 nt by simp
  have "same_requests (polled st2) fds" using sf by (simp add: st1_def)
  moreover have "same_requests (polled st3) (polled st2)" using rf by blast
  ultimately have "same_requests (polled st5) fds"
    using p5 by (blast intro: same_requests_trans)
  then show "same_requests (out_fds R) fds"
    unfolding eq using same_requests_zeroed [of "polled st5"]
    by (auto intro: same_requests_trans)
  show "length (exit_codes R) = length (workers R)"
    unfolding eq using rf len by simp
  show "(\<exists>i < length (workers R). GetExitCodeThread env i \<and> exit_codes R ! i = - 1) \<longrightarrow>
         ret R = - 1"
  proof
    assume "\<exists>i < length (workers R). GetExitCodeThread env i \<and> exit_codes R ! i = - 1"
    then obtain i where i: "i < length ds" "GetExitCodeThread env i" "codes ! i = - 1"
      unfolding eq by auto
    then have "i \<in> set [0 ..< nt']" using len by simp
    from collect_exit_codes_error [OF this i(2,3)] have "retval = - 1"
      unfolding retval_def .
    then show "ret R = - 1" unfolding eq by simp
  qed
  show "ret R = - 1 \<longrightarrow> (\<forall>f \<in> set (out_fds R). revents f = 0)"
  proof
    assume "ret R = - 1"
    then have "retval = - 1" unfolding eq by (simp add: sint_minus_one_iff)
    then show "\<forall>f \<in> set (out_fds R). revents f = 0" unfolding eq by simp
  qed
  show "\<forall>i < length (workers R).
           \<exists>s. exit_codes R ! i = word_of_int (fst (poll_single_thread env (workers R ! i) s))"
    unfolding eq using run_workers_codes [OF rw] by simp
qed


lemma group_sum_le:
  assumes "64 < (N::nat)"
  shows "(min ((N + 62) div 63) 63 - 1) * 63 + (if 0 < N mod 63 then N mod 63 else 63) \<le> N"
proof -
  define q where "q = N div 63"
  define r where "r = N mod 63"
  have N: "N = 63 * q + r" and r: "r < 63" by (simp_all add: q_def r_def)
  have q: "1 \<le> q" using assms N r by linarith
  have c: "(N + 62) div 63 = q + (if 0 < r then 1 else 0)"
    unfolding ceil_63 q_def r_def ..
  show ?thesis
    unfolding c r_def [symmetric]
    using q r unfolding N min_def by (auto split: if_splits simp: diff_mult_distrib)
qed

lemma group_sum_eq:
  assumes "64 < (N::nat)" "N \<le> 3969"
  shows "(min ((N + 62) div 63) 63 - 1) * 63 + (if 0 < N mod 63 then N mod 63 else 63) = N"
    and "min ((N + 62) div 63) 63 = (N + 62) div 63"
proof -
  define q where "q = N div 63"
  define r where "r = N mod 63"
  have N: "N = 63 * q + r" and r: "r < 63" by (simp_all add: q_def r_def)
  have q: "1 \<le> q" using assms N r by linarith
  have q2: "q + (if 0 < r then 1 else 0) \<le> 63" using assms(2) N r by (simp split: if_splits)
  have c: "(N + 62) div 63 = q + (if 0 < r then 1 else 0)"
    unfolding ceil_63 q_def r_def ..
  show "min ((N + 62) div 63) 63 = (N + 62) div 63"
    unfolding c using q2 by simp
  show "(min ((N + 62) div 63) 63 - 1) * 63 + (if 0 < N mod 63 then N mod 63 else 63) = N"
    unfolding c r_def [symmetric]
    using q r q2 unfolding N min_def by (auto split: if_splits simp: diff_mult_distrib)
qed


text \<open>
  C8, as amended: for a poll set of \<open>N > MAXIMUM_WAIT_OBJECTS\<close> descriptors, \<^verbatim>\<open>g_poll\<close> makes
  \<open>min (ceil (N / (C - 1))) (C - 1)\<close> groups, with \<open>C - 1 = MAXIMUM_WAIT_OBJECTS_PER_THREAD\<close>.
  The groups are consecutive slices of the array of at least one and at most \<open>C - 1\<close>
  descriptors each; when \<open>N \<le> (C - 1)\<^sup>2\<close> there are exactly \<open>ceil (N / (C - 1))\<close> of them and
  they cover the whole set.  The first slot of every worker is the shared stop event, no
  worker has more than \<open>C\<close> slots, and no native wait is issued on more than \<open>C\<close> objects.
\<close>

theorem g_poll_win32_partition:
  fixes env :: win_env and fds :: "GPollFD list" and timeout :: int
  defines "R \<equiv> g_poll_win32 env fds timeout"
  assumes big: "MAXIMUM_WAIT_OBJECTS < length fds"
  shows "length (workers R) =
           min ((length fds + MAXIMUM_WAIT_OBJECTS_PER_THREAD - 1) div MAXIMUM_WAIT_OBJECTS_PER_THREAD)
               MAXIMUM_WAIT_OBJECTS_PER_THREAD \<and>
         length (groups R) = length (workers R) \<and>
         (\<forall>(off, n) \<in> set (groups R).
            0 < n \<and> n \<le> MAXIMUM_WAIT_OBJECTS_PER_THREAD \<and> off + n \<le> length fds) \<and>
         concat (map (\<lambda>(off, n). take n (drop off fds)) (groups R)) =
           take (sum_list (map snd (groups R))) fds \<and>
         (length fds \<le> MAXIMUM_WAIT_OBJECTS_PER_THREAD * MAXIMUM_WAIT_OBJECTS_PER_THREAD \<longrightarrow>
            length (workers R) =
              (length fds + MAXIMUM_WAIT_OBJECTS_PER_THREAD - 1) div MAXIMUM_WAIT_OBJECTS_PER_THREAD \<and>
            sum_list (map snd (groups R)) = length fds) \<and>
         (\<forall>d \<in> set (workers R).
            slots d \<noteq> [] \<and> snd (hd (slots d)) = StopRef \<and> nhandles d \<le> MAXIMUM_WAIT_OBJECTS) \<and>
         (\<forall>n \<in> set (native_waits R). n \<le> MAXIMUM_WAIT_OBJECTS)"
proof -
  let ?N = "length fds"
  let ?P = "MAXIMUM_WAIT_OBJECTS_PER_THREAD"
  define nt where "nt = min ((?N + ?P - 1) div ?P) ?P"
  define last where "last = (if 0 < ?N mod ?P then ?N mod ?P else ?P)"
  define sizes where "sizes = replicate (nt - 1) ?P @ [last]"
  note th = g_poll_win32_threaded [OF big, of env timeout, folded R_def nt_def]
  have N: "64 < ?N" using big by (simp add: MAXIMUM_WAIT_OBJECTS_def)
  have per: "?P = 63"
    by (simp add: MAXIMUM_WAIT_OBJECTS_PER_THREAD_def MAXIMUM_WAIT_OBJECTS_def)
  have nt63: "nt = min ((?N + 62) div 63) 63" by (simp add: nt_def per)
  have last63: "last = (if 0 < ?N mod 63 then ?N mod 63 else 63)" by (simp add: last_def per)
  have "0 < (?N + 62) div 63" using N by (simp add: div_greater_zero_iff)
  then have ntpos: "0 < nt" by (simp add: nt63)
  have len: "length (workers R) = nt" by (rule th(1))
  have gs: "groups R = groups_from 0 sizes"
    using th(2) unfolding thread_sizes [OF ntpos] sizes_def last_def .
  have sum: "sum_list sizes = (nt - 1) * 63 + last"
    by (simp add: sizes_def sum_list_replicate per)
  have sumle: "sum_list sizes \<le> ?N"
    unfolding sum nt63 last63 by (rule group_sum_le [OF N])
  have mem: "0 < n \<and> n \<le> 63 \<and> off + n \<le> ?N" if "(off, n) \<in> set (groups R)" for off n
  proof -
    from that have g: "n \<in> set sizes" "off + n \<le> 0 + sum_list sizes"
      unfolding gs using groups_from_mem [of off n 0 sizes] by blast+
    have "?N mod 63 < 63" by simp
    with g(1) have "0 < n \<and> n \<le> 63"
      by (auto simp: sizes_def last63 per split: if_splits)
    with g(2) sumle show ?thesis by linarith
  qed
  have slices: "concat (map (\<lambda>(off, n). take n (drop off fds)) (groups R)) =
           take (sum_list (map snd (groups R))) fds"
    unfolding gs using groups_from_slices [of fds 0 sizes] by simp
  have full: "length (workers R) = (?N + 62) div 63 \<and> sum_list (map snd (groups R)) = ?N"
    if "?N \<le> 63 * 63"
  proof -
    from that have "?N \<le> 3969" by simp
    from group_sum_eq [OF N this] show ?thesis
      unfolding len gs groups_from_snd sum nt63 last63 by simp
  qed
  have waits: "\<forall>n \<in> set (native_waits R). n \<le> MAXIMUM_WAIT_OBJECTS"
    using th(4) by blast
  have wk: "\<forall>d \<in> set (workers R).
            slots d \<noteq> [] \<and> snd (hd (slots d)) = StopRef \<and> nhandles d \<le> MAXIMUM_WAIT_OBJECTS"
    using th(3) by blast
  have glen: "length (groups R) = length (workers R)"
    unfolding gs len by (simp add: sizes_def ntpos Suc_leI)
  have len63: "length (workers R) = min ((?N + 63 - 1) div 63) 63"
    unfolding len nt63 by simp
  from len63 glen mem slices full waits wk show ?thesis
    unfolding per by auto
qed


text \<open>
  C8 as stated fails above \<open>(C - 1)\<^sup>2\<close> descriptors: for 3970 descriptors \<^verbatim>\<open>g_poll\<close> makes 63
  groups, not \<open>ceil (3970 / 63) = 64\<close>.
\<close>

theorem g_poll_win32_thread_cap:
  "length (workers (g_poll_win32 quiet_env (replicate 3970 blank_fd) 0)) = 63 \<and>
   (length (replicate 3970 blank_fd) + MAXIMUM_WAIT_OBJECTS_PER_THREAD - 1) div
      MAXIMUM_WAIT_OBJECTS_PER_THREAD = 64 \<and>
   MAXIMUM_WAIT_OBJECTS < length (replicate 3970 blank_fd)"
proof -
  have big: "MAXIMUM_WAIT_OBJECTS < length (replicate 3970 blank_fd)"
    by (simp add: MAXIMUM_WAIT_OBJECTS_def)
  from g_poll_win32_threaded(1) [OF big, of quiet_env 0] big show ?thesis
    by (simp add: MAXIMUM_WAIT_OBJECTS_PER_THREAD_def MAXIMUM_WAIT_OBJECTS_def)
qed

theorem g_poll_win32_partition_witness:
  "length (workers (g_poll_win32 quiet_env (replicate 65 blank_fd) 0)) = 2 \<and>
   sum_list (map snd (groups (g_poll_win32 quiet_env (replicate 65 blank_fd) 0))) = 65"
proof -
  have big: "MAXIMUM_WAIT_OBJECTS < length (replicate 65 blank_fd)"
    by (simp add: MAXIMUM_WAIT_OBJECTS_def)
  from g_poll_win32_partition [OF big, of quiet_env 0] show ?thesis
    by (simp add: MAXIMUM_WAIT_OBJECTS_PER_THREAD_def MAXIMUM_WAIT_OBJECTS_def)
qed



end
